theory Spec2Isabelle
  imports Main "HOL-Library.AList"
begin

section \<open>Data model of \<open>prefect_server/api/flows.py\<close>\<close>

text \<open>
  JSON values that the code handles without looking inside them (setting values,
  parameter defaults, environment entries). \<open>truthy\<close> is Python's truth test on them.
\<close>

datatype jvalue = JNull | JBool bool | JNum int | JStr string

fun truthy :: "jvalue \<Rightarrow> bool" where
  "truthy JNull = False"
| "truthy (JBool b) = b"
| "truthy (JNum n) = (n \<noteq> 0)"
| "truthy (JStr s) = (s \<noteq> [])"

type_synonym jdict = "(string \<times> jvalue) list"

datatype error =
    ValueError string
  | AttributeError
  | TypeError
  | KeyError string

subsection \<open>The pydantic schemas (lines 25-109)\<close>

text \<open>
  A submission is taken as \<open>FlowSchema(**serialized_flow)\<close> presents it: every field
  absent from the dictionary holds its declared default.
\<close>

record ClockSchema =
  cs_parameter_defaults :: jdict

text \<open>
  The schedule document. \<open>ss_clocks\<close> is \<open>None\<close> when the dictionary has no
  \<open>clocks\<close> key; \<open>ss_extra\<close> holds the other keys (\<open>extra = "allow"\<close>).
\<close>

record ScheduleSchema =
  ss_clocks :: "ClockSchema list option"
  ss_extra :: jdict

definition clocks :: "ScheduleSchema \<Rightarrow> ClockSchema list" where
  "clocks d = (case ss_clocks d of None \<Rightarrow> [] | Some cs \<Rightarrow> cs)"

text \<open>Python's truth test on the schedule dictionary: it has at least one key.\<close>

definition schedule_truthy :: "ScheduleSchema option \<Rightarrow> bool" where
  "schedule_truthy d =
     (case d of None \<Rightarrow> False | Some x \<Rightarrow> ss_clocks x \<noteq> None \<or> ss_extra x \<noteq> [])"

record TaskSchema =
  ts_id :: string
  ts_name :: "string option"
  ts_slug :: string
  ts_type :: "string option"
  ts_auto_generated :: bool
  ts_tags :: "string list"
  ts_max_retries :: int
  ts_retry_delay :: "int option"
  ts_cache_key :: "string option"
  ts_trigger :: "string option"
  ts_mapped :: bool
  ts_is_reference_task :: bool
  ts_is_root_task :: bool
  ts_is_terminal_task :: bool

record EdgeSchema =
  es_upstream_task :: string
  es_downstream_task :: string
  es_mapped :: bool
  es_key :: "string option"

record ParameterSchema =
  ps_name :: "string option"
  ps_slug :: string
  ps_required :: bool
  ps_default :: jvalue

record FlowSchema =
  fs_name :: "string option"
  fs_tasks :: "TaskSchema list"
  fs_edges :: "EdgeSchema list"
  fs_parameters :: "ParameterSchema list"
  fs_environment :: "jdict option"
  fs_storage :: "jdict option"
  fs_schedule :: "ScheduleSchema option"
  fs_reference_tasks :: "string list"

subsection \<open>The rows of the store\<close>

record Project =
  pr_id :: string
  pr_tenant_id :: string

record FlowGroup =
  fg_id :: string
  fg_tenant_id :: string
  fg_name :: string
  fg_settings :: jdict
  fg_schedule :: "ScheduleSchema option"

record Task =
  tk_id :: string
  tk_tenant_id :: string
  tk_name :: "string option"
  tk_slug :: string
  tk_type :: "string option"
  tk_max_retries :: int
  tk_tags :: "string list"
  tk_retry_delay :: "int option"
  tk_trigger :: "string option"
  tk_mapped :: bool
  tk_auto_generated :: bool
  tk_cache_key :: "string option"
  tk_is_reference_task :: bool
  tk_is_root_task :: bool
  tk_is_terminal_task :: bool

record Edge =
  ed_tenant_id :: string
  ed_upstream_task_id :: string
  ed_downstream_task_id :: string
  ed_key :: "string option"
  ed_mapped :: bool

record Flow =
  fl_id :: string
  fl_tenant_id :: string
  fl_project_id :: string
  fl_name :: "string option"
  fl_serialized_flow :: FlowSchema
  fl_environment :: "jdict option"
  fl_core_version :: "jvalue option"
  fl_storage :: "jdict option"
  fl_parameters :: "ParameterSchema list"
  fl_version_group_id :: string
  fl_version :: int
  fl_archived :: bool
  fl_flow_group_id :: string
  fl_description :: "string option"
  fl_schedule :: "ScheduleSchema option"
  fl_is_schedule_active :: bool
  fl_tasks :: "Task list"
  fl_edges :: "Edge list"

text \<open>
  An idempotency key. \<open>AutoScheduled t\<close> is the string
  \<open>"auto-scheduled:" + str(t.in_tz("UTC"))\<close> of line 691: the UTC rendering of an instant
  determines the instant, so the key is kept as the instant itself. \<open>OtherKey\<close> is any
  other string a caller of the run API may have chosen.
\<close>

datatype idempotency_key = AutoScheduled int | OtherKey string

record FlowRun =
  fr_id :: string
  fr_flow_id :: string
  fr_scheduled_start_time :: int
  fr_parameters :: jdict
  fr_idempotency_key :: "idempotency_key option"
  fr_state :: string
  fr_auto_scheduled :: bool

text \<open>
  The persistent store: one list of rows per table, in insertion order, and the number
  of identifiers generated so far.
\<close>

record store =
  projects :: "Project list"
  flow_groups :: "FlowGroup list"
  flows :: "Flow list"
  flow_runs :: "FlowRun list"
  uuid_count :: nat

text \<open>An occurrence produced by the recurrence evaluator (\<open>return_events=True\<close>).\<close>

record ClockEvent =
  ev_start_time :: int
  ev_parameter_defaults :: jdict

text \<open>
  What the module takes from outside the repository: the clock (\<open>pendulum.now("UTC")\<close>,
  an instant as an integer), \<open>uuid.uuid4\<close> (the n-th identifier generated),
  \<open>schedule_schema.load\<close> of Prefect Core (a loaded schedule is given by its method
  \<open>next(n, return_events=True)\<close>; \<open>None\<close> when loading raises),
  \<open>config.core_version_cutoff\<close> and the order of \<open>packaging.version\<close> on parsed
  version strings.
\<close>

record env =
  now_utc :: int
  uuid4 :: "nat \<Rightarrow> string"
  schedule_load :: "ScheduleSchema option \<Rightarrow> (int \<Rightarrow> ClockEvent list) option"
  core_version_cutoff :: string
  version_less :: "string \<Rightarrow> string \<Rightarrow> bool"

subsection \<open>Store operations\<close>

text \<open>
  Modelled from the spec: the ORM of \<open>prefect_server.database\<close> is not among the
  sources. Section 6 gives its interface: \<open>find(filter) -> Optional[Record]\<close>,
  \<open>update(filter, patch) -> affected_rows\<close>, \<open>delete(filter) -> affected_rows\<close>,
  \<open>insert(record) -> id\<close>, \<open>find_max(filter, field) -> value\<close>.
\<close>

definition first_where :: "('a \<Rightarrow> bool) \<Rightarrow> 'a list \<Rightarrow> 'a option" where
  "first_where P rows = find P rows"

definition update_where :: "('a \<Rightarrow> bool) \<Rightarrow> ('a \<Rightarrow> 'a) \<Rightarrow> 'a list \<Rightarrow> 'a list" where
  "update_where P f rows = map (\<lambda>r. if P r then f r else r) rows"

definition delete_where :: "('a \<Rightarrow> bool) \<Rightarrow> 'a list \<Rightarrow> 'a list" where
  "delete_where P rows = filter (\<lambda>r. \<not> P r) rows"

definition affected_rows :: "('a \<Rightarrow> bool) \<Rightarrow> 'a list \<Rightarrow> nat" where
  "affected_rows P rows = length (filter P rows)"

text \<open>The aggregate \<open>max\<close> of a column over the selected rows; \<open>None\<close> over no row.\<close>

fun max_of :: "int list \<Rightarrow> int option" where
  "max_of [] = None"
| "max_of (x # xs) = (case max_of xs of None \<Rightarrow> Some x | Some m \<Rightarrow> Some (max x m))"

section \<open>Flow settings (lines 112-151, 423-547)\<close>

text \<open>
  \<open>_update_flow_setting\<close>. The result pairs what the call returns or raises with the
  store it leaves behind.
\<close>

definition update_flow_setting ::
  "string option \<Rightarrow> string \<Rightarrow> jvalue \<Rightarrow> store \<Rightarrow> (error + FlowGroup) \<times> store" where
  "update_flow_setting flow_id key v s =
     (case flow_id of
        None \<Rightarrow> (Inl (ValueError ''Invalid flow ID''), s)
      | Some fid \<Rightarrow>
          (case first_where (\<lambda>f. fl_id f = fid) (flows s) of
             None \<Rightarrow> (Inl (ValueError ''Invalid flow ID''), s)
           | Some flow \<Rightarrow>
               (case first_where (\<lambda>g. fg_id g = fl_flow_group_id flow) (flow_groups s) of
                  None \<Rightarrow> (Inl AttributeError, s)
                | Some flow_group \<Rightarrow>
                    let settings = AList.update key v (fg_settings flow_group);
                        hit = (\<lambda>g. fg_id g = fg_id flow_group);
                        s' = s\<lparr>flow_groups :=
                                update_where hit (\<lambda>g. g\<lparr>fg_settings := settings\<rparr>)
                                  (flow_groups s)\<rparr>
                    in if affected_rows hit (flow_groups s) = 0
                       then (Inl (ValueError ''Settings update failed''), s')
                       else (case first_where hit (flow_groups s') of
                               None \<Rightarrow> (Inl (ValueError ''Settings update failed''), s')
                             | Some g \<Rightarrow> (Inr g, s')))))"

text \<open>
  The toggles return \<open>True\<close> when every update went through; an exception of an update
  propagates, and the updates before it stay in the store.
\<close>

definition toggle :: "(error + FlowGroup) \<times> store \<Rightarrow> (error + bool) \<times> store" where
  "toggle r = (case r of (Inl e, s) \<Rightarrow> (Inl e, s) | (Inr g, s) \<Rightarrow> (Inr True, s))"

definition enable_heartbeat_for_flow :: "string option \<Rightarrow> store \<Rightarrow> (error + bool) \<times> store" where
  "enable_heartbeat_for_flow flow_id s =
     (case update_flow_setting flow_id ''disable_heartbeat'' (JBool False) s of
        (Inl e, s1) \<Rightarrow> (Inl e, s1)
      | (Inr g, s1) \<Rightarrow> toggle (update_flow_setting flow_id ''heartbeat_enabled'' (JBool True) s1))"

definition disable_heartbeat_for_flow :: "string option \<Rightarrow> store \<Rightarrow> (error + bool) \<times> store" where
  "disable_heartbeat_for_flow flow_id s =
     (case update_flow_setting flow_id ''disable_heartbeat'' (JBool True) s of
        (Inl e, s1) \<Rightarrow> (Inl e, s1)
      | (Inr g, s1) \<Rightarrow> toggle (update_flow_setting flow_id ''heartbeat_enabled'' (JBool False) s1))"

definition enable_lazarus_for_flow :: "string option \<Rightarrow> store \<Rightarrow> (error + bool) \<times> store" where
  "enable_lazarus_for_flow flow_id s =
     toggle (update_flow_setting flow_id ''lazarus_enabled'' (JBool True) s)"

definition disable_lazarus_for_flow :: "string option \<Rightarrow> store \<Rightarrow> (error + bool) \<times> store" where
  "disable_lazarus_for_flow flow_id s =
     toggle (update_flow_setting flow_id ''lazarus_enabled'' (JBool False) s)"

definition enable_version_locking_for_flow ::
  "string option \<Rightarrow> store \<Rightarrow> (error + bool) \<times> store" where
  "enable_version_locking_for_flow flow_id s =
     toggle (update_flow_setting flow_id ''version_locking_enabled'' (JBool True) s)"

definition disable_version_locking_for_flow ::
  "string option \<Rightarrow> store \<Rightarrow> (error + bool) \<times> store" where
  "disable_version_locking_for_flow flow_id s =
     toggle (update_flow_setting flow_id ''version_locking_enabled'' (JBool False) s)"

text \<open>The value a flow group (looked up by id) holds for a settings key.\<close>

definition group_setting :: "store \<Rightarrow> string \<Rightarrow> string \<Rightarrow> jvalue option" where
  "group_setting s gid k =
     (case first_where (\<lambda>g. fg_id g = gid) (flow_groups s) of
        None \<Rightarrow> None
      | Some g \<Rightarrow> map_of (fg_settings g) k)"


section \<open>Archiving and schedule activation (lines 331-363, 550-602)\<close>

definition archive_flow :: "string option \<Rightarrow> store \<Rightarrow> (error + bool) \<times> store" where
  "archive_flow flow_id s =
     (case flow_id of
        None \<Rightarrow> (Inl (ValueError ''Must provide flow ID.''), s)
      | Some fid \<Rightarrow>
          if fid = [] then (Inl (ValueError ''Must provide flow ID.''), s)
          else
            let hit = (\<lambda>f. fl_id f = fid);
                s1 = s\<lparr>flows := update_where hit (\<lambda>f. f\<lparr>fl_archived := True\<rparr>) (flows s)\<rparr>
            in if affected_rows hit (flows s) = 0 then (Inr False, s1)
               else (Inr True,
                     s1\<lparr>flow_runs :=
                          delete_where (\<lambda>r. fr_flow_id r = fid \<and> fr_state r = ''Scheduled'')
                            (flow_runs s1)\<rparr>))"

definition set_schedule_inactive :: "string option \<Rightarrow> store \<Rightarrow> (error + bool) \<times> store" where
  "set_schedule_inactive flow_id s =
     (case flow_id of
        None \<Rightarrow> (Inl (ValueError ''Invalid flow id.''), s)
      | Some fid \<Rightarrow>
          let hit = (\<lambda>f. fl_id f = fid);
              s1 = s\<lparr>flows :=
                      update_where hit (\<lambda>f. f\<lparr>fl_is_schedule_active := False\<rparr>) (flows s)\<rparr>
          in if affected_rows hit (flows s) = 0 then (Inr False, s1)
             else (Inr True,
                   s1\<lparr>flow_runs :=
                        delete_where
                          (\<lambda>r. fr_flow_id r = fid \<and> fr_state r = ''Scheduled''
                                \<and> fr_auto_scheduled r)
                          (flow_runs s1)\<rparr>))"

section \<open>Scheduling flow runs (lines 605-704)\<close>

text \<open>
  Modelled from the spec: \<open>api.runs.create_flow_run\<close> is not among the sources. Section
  4.6: it creates a FlowRun with the given \<open>scheduled_start_time\<close>, \<open>parameters\<close> and
  \<open>idempotency_key\<close>, the flag \<open>auto_scheduled\<close> not yet set; "a duplicate insert attempt
  for the same flow+idempotency_key must be rejected/ignored by the store rather than
  creating a second run", and section 5: "a conflicting insert is treated as already
  scheduled, not an error", so the run that holds the key is the one returned. The new
  run is in state \<open>Scheduled\<close>.
\<close>

definition create_flow_run ::
  "env \<Rightarrow> string \<Rightarrow> int \<Rightarrow> jdict \<Rightarrow> idempotency_key \<Rightarrow> store \<Rightarrow> string \<times> store" where
  "create_flow_run e flow_id scheduled_start_time parameters key s =
     (case first_where (\<lambda>r. fr_flow_id r = flow_id \<and> fr_idempotency_key r = Some key)
             (flow_runs s) of
        Some r \<Rightarrow> (fr_id r, s)
      | None \<Rightarrow>
          let run_id = uuid4 e (uuid_count s)
          in (run_id,
              s\<lparr>flow_runs := flow_runs s @
                    [\<lparr>fr_id = run_id, fr_flow_id = flow_id,
                      fr_scheduled_start_time = scheduled_start_time,
                      fr_parameters = parameters, fr_idempotency_key = Some key,
                      fr_state = ''Scheduled'', fr_auto_scheduled = False\<rparr>],
                uuid_count := Suc (uuid_count s)\<rparr>))"

text \<open>
  The filter of the query of lines 629-642: the flow has the given id, it or its flow
  group has a schedule that is not null, its schedule is active and it is not archived.
\<close>

definition group_of :: "store \<Rightarrow> Flow \<Rightarrow> FlowGroup option" where
  "group_of s f = first_where (\<lambda>g. fg_id g = fl_flow_group_id f) (flow_groups s)"

definition schedulable :: "store \<Rightarrow> string \<Rightarrow> Flow \<Rightarrow> bool" where
  "schedulable s fid f =
     (fl_id f = fid
      \<and> (case fl_schedule f of
           Some d \<Rightarrow> True
         | None \<Rightarrow> (case group_of s f of None \<Rightarrow> False | Some g \<Rightarrow> fg_schedule g \<noteq> None))
      \<and> fl_is_schedule_active f
      \<and> \<not> fl_archived f)"

text \<open>
  Lines 658-663: the schedule of the flow group when it is true in Python's sense, the
  flow's own schedule otherwise.
\<close>

definition effective_schedule :: "FlowGroup \<Rightarrow> Flow \<Rightarrow> ScheduleSchema option" where
  "effective_schedule flow_group flow =
     (if schedule_truthy (fg_schedule flow_group) then fg_schedule flow_group
      else fl_schedule flow)"

text \<open>
  The aggregate of lines 647-649: the greatest \<open>scheduled_start_time\<close> of the flow's
  runs that have \<open>auto_scheduled = True\<close>.
\<close>

definition max_scheduled_start_time :: "store \<Rightarrow> string \<Rightarrow> int option" where
  "max_scheduled_start_time s fid =
     max_of (map fr_scheduled_start_time
               (filter (\<lambda>r. fr_flow_id r = fid \<and> fr_auto_scheduled r) (flow_runs s)))"

text \<open>Lines 673-678.\<close>

definition last_scheduled_run :: "env \<Rightarrow> store \<Rightarrow> string \<Rightarrow> int" where
  "last_scheduled_run e s fid =
     (case max_scheduled_start_time s fid of Some t \<Rightarrow> t | None \<Rightarrow> now_utc e)"

text \<open>
  The loop of lines 681-698. A \<open>DateTime\<close> is always true in Python, so the test of line
  684 is the comparison alone.
\<close>

fun schedule_events ::
  "env \<Rightarrow> string \<Rightarrow> int \<Rightarrow> ClockEvent list \<Rightarrow> string list \<Rightarrow> store \<Rightarrow> string list \<times> store"
  where
  "schedule_events e fid watermark [] run_ids s = (run_ids, s)"
| "schedule_events e fid watermark (event # events) run_ids s =
     (if ev_start_time event \<le> watermark
      then schedule_events e fid watermark events run_ids s
      else (case create_flow_run e fid (ev_start_time event) (ev_parameter_defaults event)
                   (AutoScheduled (ev_start_time event)) s of
              (run_id, s') \<Rightarrow> schedule_events e fid watermark events (run_ids @ [run_id]) s'))"

text \<open>Lines 700-702: the batch update that marks the runs of this pass.\<close>

definition mark_auto_scheduled :: "string list \<Rightarrow> store \<Rightarrow> store" where
  "mark_auto_scheduled run_ids s =
     s\<lparr>flow_runs :=
         update_where (\<lambda>r. fr_id r \<in> set run_ids) (\<lambda>r. r\<lparr>fr_auto_scheduled := True\<rparr>)
           (flow_runs s)\<rparr>"

definition schedule_flow_runs ::
  "env \<Rightarrow> string option \<Rightarrow> int option \<Rightarrow> store \<Rightarrow> (error + string list) \<times> store" where
  "schedule_flow_runs e flow_id max_runs s =
     (let max_runs = (case max_runs of None \<Rightarrow> 10 | Some n \<Rightarrow> n)
      in case flow_id of
           None \<Rightarrow> (Inl (ValueError ''Invalid flow id.''), s)
         | Some fid \<Rightarrow>
             (case first_where (schedulable s fid) (flows s) of
                None \<Rightarrow> (Inr [], s)
              | Some flow \<Rightarrow>
                  (case group_of s flow of
                     None \<Rightarrow> (Inl AttributeError, s)
                   | Some flow_group \<Rightarrow>
                       (case schedule_load e (effective_schedule flow_group flow) of
                          None \<Rightarrow> (Inr [], s)
                        | Some next_events \<Rightarrow>
                            (case schedule_events e fid (last_scheduled_run e s fid)
                                    (next_events max_runs) [] s of
                               (run_ids, s') \<Rightarrow>
                                 (Inr run_ids, mark_auto_scheduled run_ids s'))))))"

definition set_schedule_active :: "env \<Rightarrow> string option \<Rightarrow> store \<Rightarrow> (error + bool) \<times> store" where
  "set_schedule_active e flow_id s =
     (case flow_id of
        None \<Rightarrow> (Inl (ValueError ''Invalid flow id.''), s)
      | Some fid \<Rightarrow>
          let hit = (\<lambda>f. fl_id f = fid);
              s1 = s\<lparr>flows :=
                      update_where hit (\<lambda>f. f\<lparr>fl_is_schedule_active := True\<rparr>) (flows s)\<rparr>
          in if affected_rows hit (flows s) = 0 then (Inr False, s1)
             else (case schedule_flow_runs e flow_id None s1 of
                     (Inl err, s2) \<Rightarrow> (Inl err, s2)
                   | (Inr run_ids, s2) \<Rightarrow> (Inr True, s2)))"

text \<open>The scheduling pass reads only these columns of a flow row.\<close>

definition sched_view :: "Flow \<Rightarrow> string \<times> ScheduleSchema option \<times> string \<times> bool \<times> bool" where
  "sched_view f =
     (fl_id f, fl_schedule f, fl_flow_group_id f, fl_is_schedule_active f, fl_archived f)"

text \<open>
  The data model derives the idempotency key of a run from its
  \<open>scheduled_start_time\<close> (spec, section 3). For the runs of one flow that carry an
  auto-scheduled key: the key is that of the run's own start time.
\<close>

definition auto_keys_consistent :: "store \<Rightarrow> string \<Rightarrow> bool" where
  "auto_keys_consistent s fid =
     list_all
       (\<lambda>r. if fr_flow_id r = fid
            then (case fr_idempotency_key r of
                    Some (AutoScheduled t) \<Rightarrow> fr_scheduled_start_time r = t
                  | Some (OtherKey k) \<Rightarrow> True
                  | None \<Rightarrow> True)
            else True)
       (flow_runs s)"

text \<open>
  What a run created by a pass of the loop of lines 681-698 looks like, for the flow
  \<open>fid\<close>, the watermark \<open>w\<close> and the events \<open>evs\<close>.
\<close>

definition pass_row :: "string \<Rightarrow> int \<Rightarrow> ClockEvent list \<Rightarrow> FlowRun \<Rightarrow> bool" where
  "pass_row fid w evs r =
     (fr_flow_id r = fid \<and> w < fr_scheduled_start_time r
      \<and> fr_idempotency_key r = Some (AutoScheduled (fr_scheduled_start_time r))
      \<and> fr_state r = ''Scheduled''
      \<and> (\<exists>ev\<in>set evs. ev_start_time ev = fr_scheduled_start_time r
             \<and> ev_parameter_defaults ev = fr_parameters r))"


section \<open>Creating a flow (lines 154-306)\<close>

text \<open>
  Lines 182-190. \<open>packaging.version.parse\<close> raises \<open>TypeError\<close> on a value that is not a
  string; on strings its order is \<open>version_less\<close>.
\<close>

definition cutoff_message :: "env \<Rightarrow> string \<Rightarrow> string" where
  "cutoff_message e core_version =
     ''Prefect Serve requires new flows to be built with Prefect '' @ core_version_cutoff e
     @ ''+, but this flow was built with Prefect '' @ core_version @ ''.''"

definition check_core_version :: "env \<Rightarrow> jvalue option \<Rightarrow> error option" where
  "check_core_version e core_version =
     (case core_version of
        None \<Rightarrow> None
      | Some v \<Rightarrow>
          if \<not> truthy v then None
          else (case v of
                  JStr cv \<Rightarrow>
                    if version_less e cv (core_version_cutoff e)
                    then Some (ValueError (cutoff_message e cv)) else None
                | JNull \<Rightarrow> Some TypeError
                | JBool b \<Rightarrow> Some TypeError
                | JNum n \<Rightarrow> Some TypeError))"

text \<open>Lines 201-207: \<open>required_names <= set(c.parameter_defaults)\<close> for one clock.\<close>

definition required_names_covered :: "ParameterSchema list \<Rightarrow> ClockSchema \<Rightarrow> bool" where
  "required_names_covered required_parameters c =
     list_all
       (\<lambda>p. case ps_name p of
              None \<Rightarrow> False
            | Some n \<Rightarrow> n \<in> set (map fst (cs_parameter_defaults c)))
       required_parameters"

definition required_parameters_unscheduled :: "FlowSchema \<Rightarrow> bool" where
  "required_parameters_unscheduled flow =
     (let required_parameters = filter ps_required (fs_parameters flow)
      in case fs_schedule flow of
           None \<Rightarrow> False
         | Some schedule \<Rightarrow>
             required_parameters \<noteq> []
             \<and> \<not> list_all (required_names_covered required_parameters) (clocks schedule))"

text \<open>Lines 210-221: the task details.\<close>

definition task_lookup :: "TaskSchema list \<Rightarrow> string \<Rightarrow> TaskSchema option" where
  "task_lookup tasks slug = find (\<lambda>t. ts_slug t = slug) (rev tasks)"

definition tasks_with_upstreams :: "FlowSchema \<Rightarrow> string set" where
  "tasks_with_upstreams flow = set (map es_downstream_task (fs_edges flow))"

definition tasks_with_downstreams :: "FlowSchema \<Rightarrow> string set" where
  "tasks_with_downstreams flow = set (map es_upstream_task (fs_edges flow))"

definition reference_tasks :: "FlowSchema \<Rightarrow> string set" where
  "reference_tasks flow =
     (if fs_reference_tasks flow \<noteq> [] then set (fs_reference_tasks flow)
      else set (map ts_slug
                  (filter (\<lambda>t. ts_slug t \<notin> tasks_with_downstreams flow) (fs_tasks flow))))"

definition set_task_details :: "FlowSchema \<Rightarrow> TaskSchema \<Rightarrow> TaskSchema" where
  "set_task_details flow t =
     t\<lparr>ts_mapped :=
          list_ex es_mapped (filter (\<lambda>e. es_downstream_task e = ts_slug t) (fs_edges flow)),
       ts_is_reference_task := ts_slug t \<in> reference_tasks flow,
       ts_is_root_task := ts_slug t \<notin> tasks_with_upstreams flow,
       ts_is_terminal_task := ts_slug t \<notin> tasks_with_downstreams flow\<rparr>"

text \<open>Lines 270-299: the task and edge rows of the new flow.\<close>

definition task_row :: "string \<Rightarrow> TaskSchema \<Rightarrow> Task" where
  "task_row tenant_id t =
     \<lparr>tk_id = ts_id t, tk_tenant_id = tenant_id, tk_name = ts_name t, tk_slug = ts_slug t,
      tk_type = ts_type t, tk_max_retries = ts_max_retries t, tk_tags = ts_tags t,
      tk_retry_delay = ts_retry_delay t, tk_trigger = ts_trigger t, tk_mapped = ts_mapped t,
      tk_auto_generated = ts_auto_generated t, tk_cache_key = ts_cache_key t,
      tk_is_reference_task = ts_is_reference_task t, tk_is_root_task = ts_is_root_task t,
      tk_is_terminal_task = ts_is_terminal_task t\<rparr>"

fun edge_rows :: "string \<Rightarrow> TaskSchema list \<Rightarrow> EdgeSchema list \<Rightarrow> error + Edge list" where
  "edge_rows tenant_id tasks [] = Inr []"
| "edge_rows tenant_id tasks (e # es) =
     (case task_lookup tasks (es_upstream_task e) of
        None \<Rightarrow> Inl (KeyError (es_upstream_task e))
      | Some u \<Rightarrow>
          (case task_lookup tasks (es_downstream_task e) of
             None \<Rightarrow> Inl (KeyError (es_downstream_task e))
           | Some d \<Rightarrow>
               (case edge_rows tenant_id tasks es of
                  Inl err \<Rightarrow> Inl err
                | Inr rows \<Rightarrow>
                    Inr (\<lparr>ed_tenant_id = tenant_id, ed_upstream_task_id = ts_id u,
                          ed_downstream_task_id = ts_id d, ed_key = es_key e,
                          ed_mapped = es_mapped e\<rparr> # rows))))"

text \<open>Line 224: \<open>version_group_id or str(uuid.uuid4())\<close>.\<close>

definition resolve_version_group_id :: "env \<Rightarrow> string option \<Rightarrow> store \<Rightarrow> string \<times> store" where
  "resolve_version_group_id e version_group_id s =
     (case version_group_id of
        None \<Rightarrow> (uuid4 e (uuid_count s), s\<lparr>uuid_count := Suc (uuid_count s)\<rparr>)
      | Some v \<Rightarrow>
          if v = [] then (uuid4 e (uuid_count s), s\<lparr>uuid_count := Suc (uuid_count s)\<rparr>)
          else (v, s))"

text \<open>Lines 230-249: the flow group of the version group, inserted when there is none.\<close>

definition default_settings :: jdict where
  "default_settings =
     [(''heartbeat_enabled'', JBool True), (''lazarus_enabled'', JBool True),
      (''version_locking_enabled'', JBool False)]"

definition find_flow_group :: "store \<Rightarrow> string \<Rightarrow> string \<Rightarrow> FlowGroup option" where
  "find_flow_group s tenant_id version_group_id =
     first_where (\<lambda>g. fg_tenant_id g = tenant_id \<and> fg_name g = version_group_id)
       (flow_groups s)"

definition ensure_flow_group :: "env \<Rightarrow> string \<Rightarrow> string \<Rightarrow> store \<Rightarrow> string \<times> store" where
  "ensure_flow_group e tenant_id version_group_id s =
     (case find_flow_group s tenant_id version_group_id of
        None \<Rightarrow>
          let flow_group_id = uuid4 e (uuid_count s)
          in (flow_group_id,
              s\<lparr>flow_groups := flow_groups s @
                    [\<lparr>fg_id = flow_group_id, fg_tenant_id = tenant_id,
                      fg_name = version_group_id, fg_settings = default_settings,
                      fg_schedule = None\<rparr>],
                uuid_count := Suc (uuid_count s)\<rparr>)
      | Some flow_group \<Rightarrow> (fg_id flow_group, s))"

text \<open>Line 251: the greatest version of the version group within the tenant, or 0.\<close>

definition versions_of :: "store \<Rightarrow> string \<Rightarrow> string \<Rightarrow> int list" where
  "versions_of s tenant_id version_group_id =
     map fl_version
       (filter (\<lambda>f. fl_version_group_id f = version_group_id \<and> fl_tenant_id f = tenant_id)
          (flows s))"

definition max_version :: "store \<Rightarrow> string \<Rightarrow> string \<Rightarrow> int" where
  "max_version s tenant_id version_group_id =
     (case max_of (versions_of s tenant_id version_group_id) of None \<Rightarrow> 0 | Some m \<Rightarrow> m)"

text \<open>Lines 254-300: the row of the new flow.\<close>

definition new_flow_row ::
  "FlowSchema \<Rightarrow> string \<Rightarrow> string \<Rightarrow> string \<Rightarrow> string \<Rightarrow> int \<Rightarrow> bool \<Rightarrow> string option
     \<Rightarrow> Edge list \<Rightarrow> string \<Rightarrow> Flow" where
  "new_flow_row serialized_flow project_id tenant_id version_group_id flow_group_id version
     schedule_active description edges flow_id =
     \<lparr>fl_id = flow_id, fl_tenant_id = tenant_id, fl_project_id = project_id,
      fl_name = fs_name serialized_flow,
      fl_serialized_flow = serialized_flow,
      fl_environment = fs_environment serialized_flow,
      fl_core_version =
        (case fs_environment serialized_flow of
           None \<Rightarrow> None
         | Some environment \<Rightarrow> map_of environment ''__version__''),
      fl_storage = fs_storage serialized_flow,
      fl_parameters = fs_parameters serialized_flow,
      fl_version_group_id = version_group_id,
      fl_version = version + 1,
      fl_archived = False,
      fl_flow_group_id = flow_group_id,
      fl_description = description,
      fl_schedule = fs_schedule serialized_flow,
      fl_is_schedule_active = schedule_active,
      fl_tasks =
        map (task_row tenant_id)
          (map (set_task_details serialized_flow) (fs_tasks serialized_flow)),
      fl_edges = edges\<rparr>"

text \<open>
  \<open>create_flow\<close>. The flow group is inserted before the flow row is built, so a
  \<open>KeyError\<close> of \<open>task_lookup\<close> (an edge naming a slug no task has) leaves the new flow
  group in the store. An exception of the first scheduling pass leaves the new flow in
  the store.
\<close>

definition create_flow ::
  "env \<Rightarrow> FlowSchema \<Rightarrow> string \<Rightarrow> string option \<Rightarrow> bool \<Rightarrow> string option \<Rightarrow> store
     \<Rightarrow> (error + string) \<times> store" where
  "create_flow e serialized_flow project_id version_group_id schedule_active description s =
     (case fs_environment serialized_flow of
        None \<Rightarrow> (Inl AttributeError, s)
      | Some environment \<Rightarrow>
          (case check_core_version e (map_of environment ''__version__'') of
             Some err \<Rightarrow> (Inl err, s)
           | None \<Rightarrow>
               (case first_where (\<lambda>p. pr_id p = project_id) (projects s) of
                  None \<Rightarrow> (Inl (ValueError ''Invalid project.''), s)
                | Some project \<Rightarrow>
                    if required_parameters_unscheduled serialized_flow
                    then (Inl (ValueError
                                 ''Can not schedule a flow that has required parameters.''), s)
                    else
                      (case resolve_version_group_id e version_group_id s of
                         (vgid, s0) \<Rightarrow>
                           (case ensure_flow_group e (pr_tenant_id project) vgid s0 of
                              (flow_group_id, s1) \<Rightarrow>
                                (case edge_rows (pr_tenant_id project)
                                        (fs_tasks serialized_flow) (fs_edges serialized_flow) of
                                   Inl err \<Rightarrow> (Inl err, s1)
                                 | Inr edges \<Rightarrow>
                                     let flow_id = uuid4 e (uuid_count s1);
                                         row = new_flow_row serialized_flow project_id
                                                 (pr_tenant_id project) vgid flow_group_id
                                                 (max_version s1 (pr_tenant_id project) vgid)
                                                 schedule_active description edges flow_id;
                                         s2 = s1\<lparr>flows := flows s1 @ [row],
                                                 uuid_count := Suc (uuid_count s1)\<rparr>
                                     in if schedule_active
                                        then (case schedule_flow_runs e (Some flow_id) None s2 of
                                                (Inl err, s3) \<Rightarrow> (Inl err, s3)
                                              | (Inr run_ids, s3) \<Rightarrow> (Inr flow_id, s3))
                                        else (Inr flow_id, s2)))))))"


section \<open>Example stores and submissions\<close>

definition store0 :: store where
  "store0 = \<lparr>projects = [\<lparr>pr_id = ''p1'', pr_tenant_id = ''t1''\<rparr>],
     flow_groups = [\<lparr>fg_id = ''g1'', fg_tenant_id = ''t1'', fg_name = ''vg1'',
        fg_settings = [(''heartbeat_enabled'', JBool True), (''lazarus_enabled'', JBool True),
                       (''version_locking_enabled'', JBool False)],
        fg_schedule = None\<rparr>],
     flows = [\<lparr>fl_id = ''f1'', fl_tenant_id = ''t1'', fl_project_id = ''p1'', fl_name = None,
        fl_serialized_flow = \<lparr>fs_name = None, fs_tasks = [], fs_edges = [], fs_parameters = [],
          fs_environment = None, fs_storage = None, fs_schedule = None,
          fs_reference_tasks = []\<rparr>,
        fl_environment = None, fl_core_version = None, fl_storage = None, fl_parameters = [],
        fl_version_group_id = ''vg1'', fl_version = 1, fl_archived = False,
        fl_flow_group_id = ''g1'', fl_description = None, fl_schedule = None,
        fl_is_schedule_active = True, fl_tasks = [], fl_edges = []\<rparr>],
     flow_runs = [], uuid_count = 0\<rparr>"

text \<open>
  An environment for the examples: the n-th identifier is \<open>uuid-\<close> followed by n
  letters; a schedule document loads when it has a \<open>clocks\<close> key, and its occurrences
  are then at the instants 50, 150, 250 and 350; the clock reads 100; of the versions
  used below only 0.5.0 and 0.6.0 precede the cutoff 0.6.1.
\<close>

definition env0 :: env where
  "env0 =
     \<lparr>now_utc = 100,
      uuid4 = (\<lambda>n. ''uuid-'' @ replicate n (CHR ''i'')),
      schedule_load =
        (\<lambda>d. case d of
               None \<Rightarrow> None
             | Some x \<Rightarrow>
                 (case ss_clocks x of
                    None \<Rightarrow> None
                  | Some cs \<Rightarrow>
                      Some (\<lambda>n. map (\<lambda>t. \<lparr>ev_start_time = t, ev_parameter_defaults = []\<rparr>)
                                    (take (nat n) [50, 150, 250, 350])))),
      core_version_cutoff = ''0.6.1'',
      version_less = (\<lambda>a b. (a = ''0.5.0'' \<or> a = ''0.6.0'') \<and> b = ''0.6.1'')\<rparr>"


text \<open>
  Runs of the flow \<open>f1\<close> of \<open>store0\<close> and of another flow: scheduled automatically,
  scheduled by hand, already running, and a scheduled run of the other flow.
\<close>

definition run :: "string \<Rightarrow> string \<Rightarrow> int \<Rightarrow> string \<Rightarrow> bool \<Rightarrow> FlowRun" where
  "run i fid t st auto =
     \<lparr>fr_id = i, fr_flow_id = fid, fr_scheduled_start_time = t, fr_parameters = [],
      fr_idempotency_key = (if auto then Some (AutoScheduled t) else None),
      fr_state = st, fr_auto_scheduled = auto\<rparr>"

definition store_runs :: store where
  "store_runs =
     store0\<lparr>flow_runs :=
       [run ''r1'' ''f1'' 150 ''Scheduled'' True, run ''r2'' ''f1'' 160 ''Scheduled'' False,
        run ''r3'' ''f1'' 50 ''Running'' True, run ''r4'' ''f2'' 150 ''Scheduled'' True]\<rparr>"

text \<open>The flow \<open>f1\<close> with a schedule document that \<open>env0\<close> cannot load.\<close>

definition store_bad_schedule :: store where
  "store_bad_schedule =
     store0\<lparr>flows :=
       map (\<lambda>f. f\<lparr>fl_schedule := Some \<lparr>ss_clocks = None, ss_extra = [(''type'', JStr ''?'')]\<rparr>\<rparr>)
         (flows store0)\<rparr>"

text \<open>
  The flow \<open>f1\<close> with a schedule of one clock, which \<open>env0\<close> loads; alone, and with
  the runs of \<open>store_runs\<close>.
\<close>

definition store_sched :: store where
  "store_sched =
     store0\<lparr>flows :=
       map (\<lambda>f. f\<lparr>fl_schedule :=
                    Some \<lparr>ss_clocks = Some [\<lparr>cs_parameter_defaults = []\<rparr>], ss_extra = []\<rparr>\<rparr>)
         (flows store0)\<rparr>"

definition store_sched_runs :: store where
  "store_sched_runs = store_sched\<lparr>flow_runs := flow_runs store_runs\<rparr>"

text \<open>
  The store \<open>store_sched\<close> with one run of \<open>f1\<close>, made by hand, that starts at 10
  under the key of the instant 150.
\<close>

definition store_forged :: store where
  "store_forged =
     store_sched\<lparr>flow_runs :=
       [\<lparr>fr_id = ''r9'', fr_flow_id = ''f1'', fr_scheduled_start_time = 10, fr_parameters = [],
         fr_idempotency_key = Some (AutoScheduled 150), fr_state = ''Scheduled'',
         fr_auto_scheduled = False\<rparr>]\<rparr>"

text \<open>A task and an edge with the defaults of their schemas.\<close>

definition task :: "string \<Rightarrow> string \<Rightarrow> TaskSchema" where
  "task i slug =
     \<lparr>ts_id = i, ts_name = None, ts_slug = slug, ts_type = None, ts_auto_generated = False,
      ts_tags = [], ts_max_retries = 0, ts_retry_delay = None, ts_cache_key = None,
      ts_trigger = None, ts_mapped = False, ts_is_reference_task = False,
      ts_is_root_task = False, ts_is_terminal_task = False\<rparr>"

definition edge :: "string \<Rightarrow> string \<Rightarrow> bool \<Rightarrow> EdgeSchema" where
  "edge u d m =
     \<lparr>es_upstream_task = u, es_downstream_task = d, es_mapped = m, es_key = None\<rparr>"

text \<open>A submission without \<open>environment\<close>, and one whose environment has no version.\<close>

definition flow_no_env :: FlowSchema where
  "flow_no_env =
     \<lparr>fs_name = Some ''etl'', fs_tasks = [task ''t1'' ''extract''], fs_edges = [],
      fs_parameters = [], fs_environment = None, fs_storage = None, fs_schedule = None,
      fs_reference_tasks = []\<rparr>"

definition flow_no_version :: FlowSchema where
  "flow_no_version = flow_no_env\<lparr>fs_environment := Some [(''type'', JStr ''Local'')]\<rparr>"

text \<open>
  A submission that declares a reference task no task has; one with a schedule whose
  only clock gives no default for the required parameter \<open>x\<close>; and the latter
  without \<open>environment\<close>.
\<close>

definition flow_ghost :: FlowSchema where
  "flow_ghost = flow_no_version\<lparr>fs_reference_tasks := [''ghost'']\<rparr>"

definition flow_uncovered :: FlowSchema where
  "flow_uncovered =
     flow_no_version
       \<lparr>fs_parameters :=
          [\<lparr>ps_name = Some ''x'', ps_slug = ''x'', ps_required = True, ps_default = JNull\<rparr>],
        fs_schedule := Some \<lparr>ss_clocks = Some [\<lparr>cs_parameter_defaults = []\<rparr>], ss_extra = []\<rparr>\<rparr>"

definition flow_uncovered_no_env :: FlowSchema where
  "flow_uncovered_no_env = flow_uncovered\<lparr>fs_environment := None\<rparr>"

text \<open>
  A submission built with Prefect 0.7.0: three tasks in a chain, the first edge mapped.
\<close>

definition flow_etl :: FlowSchema where
  "flow_etl =
     \<lparr>fs_name = Some ''etl'',
      fs_tasks = [task ''t1'' ''extract'', task ''t2'' ''transform'', task ''t3'' ''load''],
      fs_edges = [edge ''extract'' ''transform'' True, edge ''transform'' ''load'' False],
      fs_parameters = [], fs_environment = Some [(''__version__'', JStr ''0.7.0'')],
      fs_storage = None, fs_schedule = None, fs_reference_tasks = []\<rparr>"


section \<open>Verified properties\<close>

subsection \<open>Store operations\<close>

lemmas store_ops = first_where_def update_where_def delete_where_def affected_rows_def

lemmas create_defs = create_flow_def check_core_version_def required_parameters_unscheduled_def
  required_names_covered_def clocks_def resolve_version_group_id_def ensure_flow_group_def
  find_flow_group_def new_flow_row_def task_lookup_def max_version_def
  versions_of_def task_row_def set_task_details_def reference_tasks_def
  tasks_with_upstreams_def tasks_with_downstreams_def default_settings_def cutoff_message_def

lemmas schedule_defs = schedule_flow_runs_def schedulable_def group_of_def
  effective_schedule_def schedule_truthy_def last_scheduled_run_def
  max_scheduled_start_time_def mark_auto_scheduled_def create_flow_run_def

lemmas example_defs = env0_def store0_def flow_no_env_def flow_no_version_def task_def edge_def
  flow_etl_def flow_ghost_def flow_uncovered_def flow_uncovered_no_env_def

lemma fst_eq_Inr_D: "fst r = x \<Longrightarrow> r = (x, snd r)"
  by (cases r) simp


lemma find_map_keep:
  assumes "\<And>r. P (g r) = P r"
  shows "find P (map g rows) = map_option g (find P rows)"
  using assms by (induction rows) auto

lemma first_where_update_where:
  assumes "\<And>r. P (f r) = P r"
  shows "first_where P (update_where Q f rows) =
         map_option (\<lambda>r. if Q r then f r else r) (first_where P rows)"
  unfolding first_where_def update_where_def
  by (rule find_map_keep) (simp add: assms)

lemma first_where_sat: "first_where P rows = Some r \<Longrightarrow> P r"
  unfolding first_where_def by (auto simp: find_Some_iff)

subsection \<open>Flow settings\<close>

lemma group_setting_settings_update:
  "group_setting (s\<lparr>flow_groups := update_where (\<lambda>g. fg_id g = i) (\<lambda>g. g\<lparr>fg_settings := st\<rparr>) (flow_groups s)\<rparr>) gid k
   = (case first_where (\<lambda>g. fg_id g = gid) (flow_groups s) of None \<Rightarrow> None
      | Some g \<Rightarrow> if gid = i then map_of st k else map_of (fg_settings g) k)"
  unfolding group_setting_def
  by (auto simp: first_where_update_where split: option.splits dest: first_where_sat)

lemma update_flow_setting_other_key:
  assumes "k \<noteq> key"
  shows "group_setting (snd (update_flow_setting fid key v s)) gid k = group_setting s gid k"
proof (cases "\<exists>flow g. fid \<noteq> None \<and> first_where (\<lambda>f. fl_id f = the fid) (flows s) = Some flow
          \<and> first_where (\<lambda>g. fg_id g = fl_flow_group_id flow) (flow_groups s) = Some g")
  case False
  then show ?thesis
    by (auto simp: update_flow_setting_def split: option.splits)
next
  case True
  then obtain i flow g where fid: "fid = Some i"
    and fl: "first_where (\<lambda>f. fl_id f = i) (flows s) = Some flow"
    and g: "first_where (\<lambda>g. fg_id g = fl_flow_group_id flow) (flow_groups s) = Some g"
    by auto
  have gid: "fg_id g = fl_flow_group_id flow" using g by (auto dest: first_where_sat)
  have "snd (update_flow_setting fid key v s) =
        s\<lparr>flow_groups := update_where (\<lambda>x. fg_id x = fg_id g)
              (\<lambda>x. x\<lparr>fg_settings := AList.update key v (fg_settings g)\<rparr>) (flow_groups s)\<rparr>"
    by (simp add: update_flow_setting_def fid fl g Let_def split: option.splits)
  then show ?thesis
    using assms g gid
    by (auto simp: group_setting_settings_update update_conv' split: option.splits)
       (simp_all add: group_setting_def)
qed

lemma update_flow_setting_sets_key:
  assumes "update_flow_setting fid key v s = (Inr g, s')"
  shows "map_of (fg_settings g) key = Some v \<and> group_setting s' (fg_id g) key = Some v"
proof -
  from assms obtain i flow g0 where fid: "fid = Some i"
    and fl: "first_where (\<lambda>f. fl_id f = i) (flows s) = Some flow"
    and g0: "first_where (\<lambda>g. fg_id g = fl_flow_group_id flow) (flow_groups s) = Some g0"
    by (auto simp: update_flow_setting_def split: option.splits)
  have gid: "fg_id g0 = fl_flow_group_id flow" using g0 by (auto dest: first_where_sat)
  let ?st = "AList.update key v (fg_settings g0)"
  let ?s' = "s\<lparr>flow_groups := update_where (\<lambda>x. fg_id x = fg_id g0)
              (\<lambda>x. x\<lparr>fg_settings := ?st\<rparr>) (flow_groups s)\<rparr>"
  have fw: "first_where (\<lambda>x. fg_id x = fg_id g0) (flow_groups ?s') = Some (g0\<lparr>fg_settings := ?st\<rparr>)"
    using g0 gid by (simp add: first_where_update_where)
  from assms have "g = g0\<lparr>fg_settings := ?st\<rparr> \<and> s' = ?s'"
    using fw by (auto simp: update_flow_setting_def fid fl g0 Let_def split: option.splits if_splits)
  then show ?thesis using fw by (simp add: group_setting_def update_conv')
qed

text \<open>
  Claim C9. Updating one setting merges only the given key into the settings of the flow's
  group: whatever the call returns or raises, every flow group holds the value it held
  before under every other key, and after a successful call the group returned (and
  stored) holds the new value under the given key. In particular
  \<open>enable_lazarus_for_flow\<close> followed by \<open>disable_lazarus_for_flow\<close> leaves the entries
  \<open>heartbeat_enabled\<close> and \<open>version_locking_enabled\<close> of every flow group as they were.
\<close>

theorem update_flow_setting_merges_one_key:
  "(k \<noteq> key \<longrightarrow>
      group_setting (snd (update_flow_setting fid key v s)) gid k = group_setting s gid k)
   \<and> (\<forall>g s'. update_flow_setting fid key v s = (Inr g, s') \<longrightarrow>
          map_of (fg_settings g) key = Some v \<and> group_setting s' (fg_id g) key = Some v)
   \<and> group_setting (snd (disable_lazarus_for_flow fid (snd (enable_lazarus_for_flow fid s))))
         gid ''heartbeat_enabled'' = group_setting s gid ''heartbeat_enabled''
   \<and> group_setting (snd (disable_lazarus_for_flow fid (snd (enable_lazarus_for_flow fid s))))
         gid ''version_locking_enabled'' = group_setting s gid ''version_locking_enabled''"
proof -
  have snd_toggle: "\<And>r. snd (toggle r) = snd r"
    by (auto simp: toggle_def split: prod.splits sum.splits)
  have a: "k \<noteq> key \<longrightarrow>
      group_setting (snd (update_flow_setting fid key v s)) gid k = group_setting s gid k"
    by (simp add: update_flow_setting_other_key)
  have b: "\<forall>g s'. update_flow_setting fid key v s = (Inr g, s') \<longrightarrow>
          map_of (fg_settings g) key = Some v \<and> group_setting s' (fg_id g) key = Some v"
    using update_flow_setting_sets_key by blast
  have c: "group_setting (snd (disable_lazarus_for_flow fid (snd (enable_lazarus_for_flow fid s))))
         gid k' = group_setting s gid k'" if "k' \<noteq> ''lazarus_enabled''" for k'
    using that
    by (simp add: disable_lazarus_for_flow_def enable_lazarus_for_flow_def snd_toggle
        update_flow_setting_other_key)
  show ?thesis using a b c [of "''heartbeat_enabled''"] c [of "''version_locking_enabled''"]
    by simp
qed

theorem update_flow_setting_merges_one_key_witness:
  "''heartbeat_enabled'' \<noteq> ''lazarus_enabled''
   \<and> update_flow_setting (Some ''f1'') ''lazarus_enabled'' (JBool False) store0
       = (Inr \<lparr>fg_id = ''g1'', fg_tenant_id = ''t1'', fg_name = ''vg1'',
            fg_settings = [(''heartbeat_enabled'', JBool True), (''lazarus_enabled'', JBool False),
                           (''version_locking_enabled'', JBool False)],
            fg_schedule = None\<rparr>,
          store0\<lparr>flow_groups := [\<lparr>fg_id = ''g1'', fg_tenant_id = ''t1'', fg_name = ''vg1'',
            fg_settings = [(''heartbeat_enabled'', JBool True), (''lazarus_enabled'', JBool False),
                           (''version_locking_enabled'', JBool False)],
            fg_schedule = None\<rparr>]\<rparr>)
   \<and> group_setting (snd (update_flow_setting (Some ''f1'') ''lazarus_enabled'' (JBool False) store0))
         ''g1'' ''heartbeat_enabled'' = Some (JBool True)
   \<and> group_setting (snd (update_flow_setting (Some ''f1'') ''lazarus_enabled'' (JBool False) store0))
         ''g1'' ''lazarus_enabled'' = Some (JBool False)
   \<and> group_setting (snd (disable_lazarus_for_flow (Some ''f1'')
           (snd (enable_lazarus_for_flow (Some ''f1'') store0)))) ''g1'' ''version_locking_enabled''
       = Some (JBool False)"
proof -
  have run: "update_flow_setting (Some ''f1'') ''lazarus_enabled'' (JBool False) store0
       = (Inr \<lparr>fg_id = ''g1'', fg_tenant_id = ''t1'', fg_name = ''vg1'',
            fg_settings = [(''heartbeat_enabled'', JBool True), (''lazarus_enabled'', JBool False),
                           (''version_locking_enabled'', JBool False)],
            fg_schedule = None\<rparr>,
          store0\<lparr>flow_groups := [\<lparr>fg_id = ''g1'', fg_tenant_id = ''t1'', fg_name = ''vg1'',
            fg_settings = [(''heartbeat_enabled'', JBool True), (''lazarus_enabled'', JBool False),
                           (''version_locking_enabled'', JBool False)],
            fg_schedule = None\<rparr>]\<rparr>)"
    by (simp add: update_flow_setting_def store0_def first_where_def update_where_def
        affected_rows_def Let_def)
  have old: "group_setting store0 ''g1'' ''heartbeat_enabled'' = Some (JBool True)"
       "group_setting store0 ''g1'' ''version_locking_enabled'' = Some (JBool False)"
    by (simp_all add: group_setting_def store0_def first_where_def)
  show ?thesis
    using update_flow_setting_merges_one_key
      [of "''heartbeat_enabled''" "''lazarus_enabled''" "Some ''f1''" "JBool False" store0 "''g1''"]
      run old
    by simp
qed


subsection \<open>Archiving and deactivation\<close>

lemma affected_rows_zero: "(affected_rows P rows = 0) = (\<forall>r\<in>set rows. \<not> P r)"
  by (simp add: affected_rows_def filter_empty_conv)

text \<open>
  Claim C7. For a flow that exists, \<open>archive_flow\<close> succeeds and deletes every run of the
  flow in state \<open>Scheduled\<close>, whatever its \<open>auto_scheduled\<close> flag, and keeps every other
  run; \<open>set_schedule_inactive\<close> succeeds and deletes exactly the runs of the flow that are
  both in state \<open>Scheduled\<close> and \<open>auto_scheduled\<close>, so runs scheduled by hand and runs
  that have left the state \<open>Scheduled\<close> stay. For an id no flow has, both return
  \<open>False\<close> and change nothing.
\<close>

theorem archive_and_deactivate_deletions:
  "(fid \<noteq> [] \<and> fid \<in> fl_id ` set (flows s) \<longrightarrow>
      fst (archive_flow (Some fid) s) = Inr True
      \<and> flow_runs (snd (archive_flow (Some fid) s))
          = filter (\<lambda>r. \<not> (fr_flow_id r = fid \<and> fr_state r = ''Scheduled'')) (flow_runs s))
   \<and> (fid \<in> fl_id ` set (flows s) \<longrightarrow>
      fst (set_schedule_inactive (Some fid) s) = Inr True
      \<and> flow_runs (snd (set_schedule_inactive (Some fid) s))
          = filter (\<lambda>r. \<not> (fr_flow_id r = fid \<and> fr_state r = ''Scheduled''
                             \<and> fr_auto_scheduled r)) (flow_runs s))
   \<and> (fid \<notin> fl_id ` set (flows s) \<longrightarrow>
      archive_flow (Some fid) s
        = (if fid = [] then Inl (ValueError ''Must provide flow ID.'') else Inr False, s)
      \<and> set_schedule_inactive (Some fid) s = (Inr False, s))"
proof -
  have hit: "(affected_rows (\<lambda>f. fl_id f = fid) (flows s) = 0) = (fid \<notin> fl_id ` set (flows s))"
    by (auto simp: affected_rows_zero)
  have same: "fid \<notin> fl_id ` set (flows s) \<Longrightarrow> update_where (\<lambda>f. fl_id f = fid) g (flows s) = flows s" for g
    unfolding update_where_def by (rule map_idI) auto
  show ?thesis
    by (simp add: archive_flow_def set_schedule_inactive_def Let_def delete_where_def same hit)
qed

subsection \<open>A schedule that fails to deserialize\<close>

text \<open>
  Claim C8. When the flow passes the filter of the query, its flow group is there and
  \<open>schedule_schema.load\<close> raises on the effective schedule, \<open>schedule_flow_runs\<close>
  returns the empty list of run ids, raises nothing and leaves the store as it was.
\<close>

theorem schedule_flow_runs_bad_schedule:
  assumes "first_where (schedulable s fid) (flows s) = Some flow"
    and "group_of s flow = Some flow_group"
    and "schedule_load e (effective_schedule flow_group flow) = None"
  shows "schedule_flow_runs e (Some fid) max_runs s = (Inr [], s)"
  using assms by (simp add: schedule_flow_runs_def)

subsection \<open>The environment of a submission\<close>

lemma create_flow_run_env:
  "create_flow_run (e\<lparr>core_version_cutoff := c, version_less := lt\<rparr>) fid t ps k s
   = create_flow_run e fid t ps k s"
  by (simp add: create_flow_run_def Let_def split: option.splits)

lemma schedule_events_env:
  "schedule_events (e\<lparr>core_version_cutoff := c, version_less := lt\<rparr>) fid w evs ids s
   = schedule_events e fid w evs ids s"
  by (induction evs arbitrary: ids s) (simp_all add: create_flow_run_env split: prod.splits)

lemma schedule_flow_runs_env:
  "schedule_flow_runs (e\<lparr>core_version_cutoff := c, version_less := lt\<rparr>) fid mr s
   = schedule_flow_runs e fid mr s"
  by (simp add: schedule_flow_runs_def schedule_events_env last_scheduled_run_def
      split: option.splits)

text \<open>
  Claim C10. A submission without an \<open>environment\<close> mapping makes \<open>create_flow\<close> raise
  \<open>AttributeError\<close> (before any write), not one of its \<open>ValueError\<close>s. When the mapping
  is there and has no \<open>__version__\<close> key, the cutoff check raises nothing, and the
  outcome of \<open>create_flow\<close> is the same under every cutoff and every order of versions:
  the check is bypassed.
\<close>

theorem create_flow_environment_unchecked:
  "(fs_environment sf = None \<longrightarrow>
      create_flow e sf pid vg act d s = (Inl AttributeError, s))
   \<and> (\<forall>environment. fs_environment sf = Some environment
          \<and> map_of environment ''__version__'' = None \<longrightarrow>
        check_core_version e None = None
        \<and> create_flow (e\<lparr>core_version_cutoff := c, version_less := lt\<rparr>) sf pid vg act d s
            = create_flow e sf pid vg act d s)"
proof -
  have "create_flow (e\<lparr>core_version_cutoff := c, version_less := lt\<rparr>) sf pid vg act d s
            = create_flow e sf pid vg act d s"
    if "fs_environment sf = Some environment" "map_of environment ''__version__'' = None"
    for environment
    using that
    by (simp add: create_flow_def check_core_version_def schedule_flow_runs_env
        resolve_version_group_id_def ensure_flow_group_def Let_def
        split: option.splits prod.splits sum.splits)
  then show ?thesis
    by (simp add: create_flow_def check_core_version_def)
qed


theorem archive_and_deactivate_deletions_witness:
  "''f1'' \<noteq> [] \<and> ''f1'' \<in> fl_id ` set (flows store_runs)
   \<and> archive_flow (Some ''f1'') store_runs
       = (Inr True,
          store_runs\<lparr>flows := map (\<lambda>f. f\<lparr>fl_archived := True\<rparr>) (flows store0),
            flow_runs := [run ''r3'' ''f1'' 50 ''Running'' True,
                          run ''r4'' ''f2'' 150 ''Scheduled'' True]\<rparr>)
   \<and> flow_runs (snd (set_schedule_inactive (Some ''f1'') store_runs))
       = [run ''r2'' ''f1'' 160 ''Scheduled'' False, run ''r3'' ''f1'' 50 ''Running'' True,
          run ''r4'' ''f2'' 150 ''Scheduled'' True]
   \<and> ''f9'' \<notin> fl_id ` set (flows store_runs)
   \<and> archive_flow (Some ''f9'') store_runs = (Inr False, store_runs)"
proof -
  have a: "''f1'' \<in> fl_id ` set (flows store_runs)" "''f9'' \<notin> fl_id ` set (flows store_runs)"
    by (simp_all add: store_runs_def store0_def)
  have b: "archive_flow (Some ''f1'') store_runs
       = (Inr True,
          store_runs\<lparr>flows := map (\<lambda>f. f\<lparr>fl_archived := True\<rparr>) (flows store0),
            flow_runs := [run ''r3'' ''f1'' 50 ''Running'' True,
                          run ''r4'' ''f2'' 150 ''Scheduled'' True]\<rparr>)"
    by (simp add: archive_flow_def store_runs_def store0_def run_def store_ops Let_def)
  have c: "filter (\<lambda>r. \<not> (fr_flow_id r = ''f1'' \<and> fr_state r = ''Scheduled''
                             \<and> fr_auto_scheduled r)) (flow_runs store_runs)
       = [run ''r2'' ''f1'' 160 ''Scheduled'' False, run ''r3'' ''f1'' 50 ''Running'' True,
          run ''r4'' ''f2'' 150 ''Scheduled'' True]"
    by (simp add: store_runs_def run_def)
  show ?thesis
    using archive_and_deactivate_deletions [of "''f1''" store_runs]
      archive_and_deactivate_deletions [of "''f9''" store_runs] a b c
    by simp
qed

theorem schedule_flow_runs_bad_schedule_witness:
  "first_where (schedulable store_bad_schedule ''f1'') (flows store_bad_schedule)
     = Some (hd (flows store_bad_schedule))
   \<and> group_of store_bad_schedule (hd (flows store_bad_schedule))
       = Some (hd (flow_groups store0))
   \<and> schedule_load env0
        (effective_schedule (hd (flow_groups store0)) (hd (flows store_bad_schedule))) = None
   \<and> schedule_flow_runs env0 (Some ''f1'') None store_bad_schedule
       = (Inr [], store_bad_schedule)"
proof -
  have a: "first_where (schedulable store_bad_schedule ''f1'') (flows store_bad_schedule)
     = Some (hd (flows store_bad_schedule))"
    by (simp add: store_bad_schedule_def store0_def schedulable_def store_ops)
  have b: "group_of store_bad_schedule (hd (flows store_bad_schedule))
       = Some (hd (flow_groups store0))"
    by (simp add: store_bad_schedule_def store0_def group_of_def store_ops)
  have c: "schedule_load env0
        (effective_schedule (hd (flow_groups store0)) (hd (flows store_bad_schedule))) = None"
    by (simp add: store_bad_schedule_def store0_def env0_def effective_schedule_def
        schedule_truthy_def)
  show ?thesis
    using schedule_flow_runs_bad_schedule [OF a b c, of None] a b c by simp
qed

theorem create_flow_environment_unchecked_witness:
  "fs_environment flow_no_env = None
   \<and> create_flow env0 flow_no_env ''p1'' None True None store0 = (Inl AttributeError, store0)
   \<and> fs_environment flow_no_version = Some [(''type'', JStr ''Local'')]
   \<and> map_of [(''type'', JStr ''Local'')] ''__version__'' = None
   \<and> create_flow (env0\<lparr>core_version_cutoff := ''9.9.9'', version_less := (\<lambda>a b. True)\<rparr>)
        flow_no_version ''p1'' (Some ''vg1'') False None store0
       = create_flow env0 flow_no_version ''p1'' (Some ''vg1'') False None store0
   \<and> fst (create_flow env0 flow_no_version ''p1'' (Some ''vg1'') False None store0)
       = Inr ''uuid-''"
proof -
  have a: "fs_environment flow_no_env = None"
    "fs_environment flow_no_version = Some [(''type'', JStr ''Local'')]"
    by (simp_all add: flow_no_env_def flow_no_version_def)
  have b: "fst (create_flow env0 flow_no_version ''p1'' (Some ''vg1'') False None store0)
       = Inr ''uuid-''"
    by (simp add: create_flow_def flow_no_version_def flow_no_env_def env0_def store0_def
        check_core_version_def required_parameters_unscheduled_def
        resolve_version_group_id_def ensure_flow_group_def find_flow_group_def store_ops
        Let_def)
  show ?thesis
    using create_flow_environment_unchecked
      [where sf = flow_no_env and e = env0 and pid = "''p1''" and vg = None and act = True
         and d = None and s = store0]
      create_flow_environment_unchecked
      [where sf = flow_no_version and e = env0 and c = "''9.9.9''" and lt = "\<lambda>a b. True"
         and pid = "''p1''" and vg = "Some ''vg1''" and act = False and d = None and s = store0]
      a b
    by simp
qed


subsection \<open>What the scheduling pass and \<open>create_flow\<close> leave alone\<close>

lemma create_flow_run_frame:
  assumes "create_flow_run e fid t ps k s = (rid, s')"
  shows "flows s' = flows s \<and> flow_groups s' = flow_groups s \<and> projects s' = projects s"
  using assms by (auto simp: create_flow_run_def Let_def split: option.splits)

lemma schedule_events_frame:
  assumes "schedule_events e fid w evs ids s = (ids', s')"
  shows "flows s' = flows s \<and> flow_groups s' = flow_groups s \<and> projects s' = projects s"
  using assms
proof (induction evs arbitrary: ids s)
  case Nil
  then show ?case by simp
next
  case (Cons ev evs)
  show ?case
  proof (cases "ev_start_time ev \<le> w")
    case True
    with Cons show ?thesis by simp
  next
    case False
    obtain rid s1 where c: "create_flow_run e fid (ev_start_time ev) (ev_parameter_defaults ev)
        (AutoScheduled (ev_start_time ev)) s = (rid, s1)"
      by (cases "create_flow_run e fid (ev_start_time ev) (ev_parameter_defaults ev)
        (AutoScheduled (ev_start_time ev)) s") auto
    with Cons.prems False have "schedule_events e fid w evs (ids @ [rid]) s1 = (ids', s')"
      by simp
    from Cons.IH [OF this] create_flow_run_frame [OF c] show ?thesis by simp
  qed
qed

lemma schedule_flow_runs_frame:
  assumes "schedule_flow_runs e fid mr s = (r, s')"
  shows "flows s' = flows s \<and> flow_groups s' = flow_groups s \<and> projects s' = projects s"
  using assms
  by (auto simp: schedule_flow_runs_def mark_auto_scheduled_def
      split: option.splits prod.splits dest: schedule_events_frame)

lemma resolve_version_group_id_frame:
  assumes "resolve_version_group_id e vg s = (vgid, s0)"
  shows "flows s0 = flows s \<and> flow_groups s0 = flow_groups s \<and> projects s0 = projects s
         \<and> flow_runs s0 = flow_runs s"
  using assms by (auto simp: resolve_version_group_id_def split: option.splits if_splits)

lemma ensure_flow_group_frame:
  assumes "ensure_flow_group e T vgid s0 = (gid, s1)"
  shows "flows s1 = flows s0 \<and> projects s1 = projects s0 \<and> flow_runs s1 = flow_runs s0"
  using assms by (auto simp: ensure_flow_group_def Let_def split: option.splits)

lemma max_version_flows: "flows s1 = flows s \<Longrightarrow> max_version s1 T v = max_version s T v"
  by (simp add: max_version_def versions_of_def)

text \<open>What a successful \<open>create_flow\<close> has done.\<close>

lemma create_flow_Inr:
  assumes "create_flow e sf pid vg act d s = (Inr fid, s')"
  obtains environment project edges vgid s0 gid s1 where
    "fs_environment sf = Some environment"
    "first_where (\<lambda>p. pr_id p = pid) (projects s) = Some project"
    "\<not> required_parameters_unscheduled sf"
    "resolve_version_group_id e vg s = (vgid, s0)"
    "ensure_flow_group e (pr_tenant_id project) vgid s0 = (gid, s1)"
    "edge_rows (pr_tenant_id project) (fs_tasks sf) (fs_edges sf) = Inr edges"
    "fid = uuid4 e (uuid_count s1)"
    "flows s' = flows s @ [new_flow_row sf pid (pr_tenant_id project) vgid gid
                            (max_version s (pr_tenant_id project) vgid) act d edges fid]"
    "flow_groups s' = flow_groups s1"
    "projects s' = projects s"
proof -
  from assms obtain environment where env: "fs_environment sf = Some environment"
    and chk: "check_core_version e (map_of environment ''__version__'') = None"
    by (auto simp: create_flow_def split: option.splits)
  from assms env chk obtain project where
    pr: "first_where (\<lambda>p. pr_id p = pid) (projects s) = Some project"
    and req: "\<not> required_parameters_unscheduled sf"
    by (auto simp: create_flow_def split: option.splits if_splits)
  obtain vgid s0 where rv: "resolve_version_group_id e vg s = (vgid, s0)"
    by (cases "resolve_version_group_id e vg s") auto
  obtain gid s1 where eg: "ensure_flow_group e (pr_tenant_id project) vgid s0 = (gid, s1)"
    by (cases "ensure_flow_group e (pr_tenant_id project) vgid s0") auto
  from assms env chk pr req rv eg obtain edges where
    ed: "edge_rows (pr_tenant_id project) (fs_tasks sf) (fs_edges sf) = Inr edges"
    by (auto simp: create_flow_def split: sum.splits)
  let ?fid = "uuid4 e (uuid_count s1)"
  let ?row = "new_flow_row sf pid (pr_tenant_id project) vgid gid
                (max_version s1 (pr_tenant_id project) vgid) act d edges ?fid"
  let ?s2 = "s1\<lparr>flows := flows s1 @ [?row], uuid_count := Suc (uuid_count s1)\<rparr>"
  have fr: "flows s1 = flows s" "projects s1 = projects s"
    using resolve_version_group_id_frame [OF rv] ensure_flow_group_frame [OF eg] by simp_all
  have res: "fid = ?fid \<and> flows s' = flows ?s2 \<and> flow_groups s' = flow_groups ?s2
             \<and> projects s' = projects ?s2"
  proof (cases act)
    case False
    with assms env chk pr req rv eg ed show ?thesis
      by (auto simp: create_flow_def Let_def)
  next
    case True
    obtain r s3 where sf: "schedule_flow_runs e (Some ?fid) None ?s2 = (r, s3)"
      by (cases "schedule_flow_runs e (Some ?fid) None ?s2") auto
    with assms env chk pr req rv eg ed True have "fid = ?fid \<and> s' = s3"
      by (auto simp: create_flow_def Let_def split: sum.splits)
    with schedule_flow_runs_frame [OF sf] show ?thesis by simp
  qed
  show ?thesis
    using that [OF env pr req rv eg ed] res fr
    by (simp add: max_version_flows [of s1 s])
qed


lemma create_flow_new_row:
  assumes "create_flow e sf pid vg act d s = (Inr fid, s')"
  shows "flows s' = flows s @ [last (flows s')] \<and> fl_id (last (flows s')) = fid
         \<and> fl_tasks (last (flows s'))
             = map (\<lambda>t. task_row (fl_tenant_id (last (flows s'))) (set_task_details sf t))
                 (fs_tasks sf)"
  using assms by (rule create_flow_Inr) (simp add: new_flow_row_def)

subsection \<open>Task roles\<close>

text \<open>
  Claim C4. When \<open>create_flow\<close> succeeds, the flow row it appended (the last one, with the
  returned id) holds one task row per submitted task, in order and with the same slugs;
  each is stored with \<open>is_root_task\<close> true iff its slug is no edge's
  \<open>downstream_task\<close>, \<open>is_terminal_task\<close> true iff its slug is no edge's
  \<open>upstream_task\<close>, and \<open>mapped\<close> true iff some edge flagged \<open>mapped\<close> has it as
  \<open>downstream_task\<close>. With no edge at all, every task is both root and terminal.
\<close>

theorem create_flow_task_roles:
  assumes "create_flow e sf pid vg act d s = (Inr fid, s')"
  shows "flows s' = flows s @ [last (flows s')] \<and> fl_id (last (flows s')) = fid
    \<and> map tk_slug (fl_tasks (last (flows s'))) = map ts_slug (fs_tasks sf)
    \<and> (\<forall>t\<in>set (fl_tasks (last (flows s'))).
          (tk_is_root_task t \<longleftrightarrow> tk_slug t \<notin> es_downstream_task ` set (fs_edges sf))
        \<and> (tk_is_terminal_task t \<longleftrightarrow> tk_slug t \<notin> es_upstream_task ` set (fs_edges sf))
        \<and> (tk_mapped t \<longleftrightarrow>
             (\<exists>x\<in>set (fs_edges sf). es_mapped x \<and> es_downstream_task x = tk_slug t)))
    \<and> (fs_edges sf = [] \<longrightarrow>
         (\<forall>t\<in>set (fl_tasks (last (flows s'))). tk_is_root_task t \<and> tk_is_terminal_task t))"
proof -
  note row = create_flow_new_row [OF assms]
  have slugs: "map tk_slug (fl_tasks (last (flows s'))) = map ts_slug (fs_tasks sf)"
    using row by (simp add: task_row_def set_task_details_def comp_def)
  have roles: "(tk_is_root_task t \<longleftrightarrow> tk_slug t \<notin> es_downstream_task ` set (fs_edges sf))
        \<and> (tk_is_terminal_task t \<longleftrightarrow> tk_slug t \<notin> es_upstream_task ` set (fs_edges sf))
        \<and> (tk_mapped t \<longleftrightarrow>
             (\<exists>x\<in>set (fs_edges sf). es_mapped x \<and> es_downstream_task x = tk_slug t))"
    if "t \<in> set (fl_tasks (last (flows s')))" for t
  proof -
    from that row obtain u where "u \<in> set (fs_tasks sf)"
      and t: "t = task_row (fl_tenant_id (last (flows s'))) (set_task_details sf u)"
      by auto
    show ?thesis
      unfolding t
      by (auto simp: task_row_def set_task_details_def tasks_with_upstreams_def
          tasks_with_downstreams_def list_ex_iff)
  qed
  have "tk_is_root_task t \<and> tk_is_terminal_task t"
    if "fs_edges sf = []" "t \<in> set (fl_tasks (last (flows s')))" for t
    using roles [OF that(2)] that(1) by simp
  with row slugs roles show ?thesis by blast
qed

theorem create_flow_task_roles_witness:
  "create_flow env0 flow_etl ''p1'' (Some ''vg1'') True None store0
     = (Inr ''uuid-'', snd (create_flow env0 flow_etl ''p1'' (Some ''vg1'') True None store0))
   \<and> map (\<lambda>t. (tk_slug t, tk_is_root_task t, tk_is_terminal_task t, tk_mapped t))
       (fl_tasks (last (flows (snd
          (create_flow env0 flow_etl ''p1'' (Some ''vg1'') True None store0)))))
     = [(''extract'', True, False, False), (''transform'', False, False, True),
        (''load'', False, True, False)]
   \<and> fs_edges flow_no_version = []
   \<and> map (\<lambda>t. (tk_slug t, tk_is_root_task t, tk_is_terminal_task t, tk_mapped t))
       (fl_tasks (last (flows (snd
          (create_flow env0 flow_no_version ''p1'' None False None store0)))))
     = [(''extract'', True, True, False)]"
proof -
  let ?r = "create_flow env0 flow_etl ''p1'' (Some ''vg1'') True None store0"
  let ?q = "create_flow env0 flow_no_version ''p1'' None False None store0"
  have r: "?r = (Inr ''uuid-'', snd ?r)"
    by (rule fst_eq_Inr_D)
       (simp add: create_defs schedule_defs example_defs store_ops Let_def)
  have q: "?q = (Inr ''uuid-ii'', snd ?q)"
    by (rule fst_eq_Inr_D)
       (simp add: create_defs schedule_defs example_defs store_ops Let_def)
  have tasks: "fl_tasks (last (flows (snd ?r)))
     = map (\<lambda>t. task_row ''t1'' (set_task_details flow_etl t)) (fs_tasks flow_etl)"
    using create_flow_task_roles [OF r]
    by (simp add: create_defs schedule_defs example_defs store_ops Let_def)
  have tasks2: "fl_tasks (last (flows (snd ?q)))
     = map (\<lambda>t. task_row ''t1'' (set_task_details flow_no_version t)) (fs_tasks flow_no_version)"
    using create_flow_task_roles [OF q]
    by (simp add: create_defs schedule_defs example_defs store_ops Let_def)
  show ?thesis
    using r create_flow_task_roles [OF r] create_flow_task_roles [OF q]
    unfolding tasks tasks2
    by (simp add: create_defs example_defs list_ex_iff)
qed

subsection \<open>The scheduling pass and the columns of the new flow row\<close>

lemma schedule_events_flows_update:
  "schedule_events e fid w evs ids (s\<lparr>flows := X\<rparr>)
   = (case schedule_events e fid w evs ids s of (i, s') \<Rightarrow> (i, s'\<lparr>flows := X\<rparr>))"
proof (induction evs arbitrary: ids s)
  case Nil
  then show ?case by simp
next
  case (Cons ev evs)
  have c: "create_flow_run e fid t ps k (s\<lparr>flows := X\<rparr>)
           = (case create_flow_run e fid t ps k s of (i, s') \<Rightarrow> (i, s'\<lparr>flows := X\<rparr>))"
    for t ps k
    by (simp add: create_flow_run_def Let_def split: option.splits)
  show ?case
    by (simp add: c Cons.IH split: prod.splits)
qed

lemma first_where_append:
  "first_where P (xs @ [x]) =
     (case first_where P xs of Some y \<Rightarrow> Some y | None \<Rightarrow> if P x then Some x else None)"
  unfolding first_where_def by (induction xs) auto

lemma fst_schedule_flow_runs:
  "fst (schedule_flow_runs e (Some i) mr S) =
     (case first_where (schedulable S i) (flows S) of
        None \<Rightarrow> Inr []
      | Some flow \<Rightarrow>
          (case group_of S flow of
             None \<Rightarrow> Inl AttributeError
           | Some g \<Rightarrow>
               (case schedule_load e (effective_schedule g flow) of
                  None \<Rightarrow> Inr []
                | Some nx \<Rightarrow>
                    Inr (fst (schedule_events e i (last_scheduled_run e S i)
                               (nx (case mr of None \<Rightarrow> 10 | Some n \<Rightarrow> n)) [] S)))))"
  by (simp add: schedule_flow_runs_def split: option.splits prod.splits)

lemma schedule_flow_runs_last_row:
  assumes "sched_view row = sched_view row'"
  shows "fst (schedule_flow_runs e fid mr (s\<lparr>flows := fs @ [row]\<rparr>))
         = fst (schedule_flow_runs e fid mr (s\<lparr>flows := fs @ [row']\<rparr>))"
proof (cases fid)
  case None
  then show ?thesis by (simp add: schedule_flow_runs_def)
next
  case (Some i)
  let ?s = "s\<lparr>flows := fs @ [row]\<rparr>" and ?s' = "s\<lparr>flows := fs @ [row']\<rparr>"
  define R where "R S flow =
          (case group_of S flow of
             None \<Rightarrow> Inl AttributeError
           | Some g \<Rightarrow>
               (case schedule_load e (effective_schedule g flow) of
                  None \<Rightarrow> Inr []
                | Some nx \<Rightarrow>
                    Inr (fst (schedule_events e i (last_scheduled_run e S i)
                               (nx (case mr of None \<Rightarrow> 10 | Some n \<Rightarrow> n)) [] S))))"
    for S flow
  have fstR: "fst (schedule_flow_runs e (Some i) mr S) =
     (case first_where (schedulable S i) (flows S) of None \<Rightarrow> Inr [] | Some flow \<Rightarrow> R S flow)"
    for S
    unfolding R_def by (rule fst_schedule_flow_runs)
  have grp: "group_of ?s f = group_of ?s' f" for f
    by (simp add: group_of_def)
  have grpr: "group_of ?s' row = group_of ?s' row'"
    using assms by (simp add: group_of_def sched_view_def)
  have sch: "schedulable ?s i f = schedulable ?s' i f" for f
    unfolding schedulable_def grp by (rule refl)
  have schr: "schedulable ?s' i row = schedulable ?s' i row'"
    unfolding schedulable_def grpr using assms by (simp add: sched_view_def)
  have w: "last_scheduled_run e ?s i = last_scheduled_run e ?s' i"
    by (simp add: last_scheduled_run_def max_scheduled_start_time_def)
  have ev: "fst (schedule_events e i w evs [] ?s) = fst (schedule_events e i w evs [] ?s')"
    for w evs
    by (simp add: schedule_events_flows_update split: prod.splits)
  have Rf: "R ?s f = R ?s' f" for f
    unfolding R_def grp w ev by (rule refl)
  have eff: "effective_schedule g row = effective_schedule g row'" for g
    using assms by (simp add: effective_schedule_def sched_view_def)
  have Rr: "R ?s' row = R ?s' row'"
    unfolding R_def grpr eff by (rule refl)
  have sch_eq: "schedulable ?s i = schedulable ?s' i"
    using sch by (rule ext)
  show ?thesis
    unfolding Some fstR
    by (simp add: first_where_append sch_eq schr Rf Rr split: option.splits)
qed


subsection \<open>Reference tasks\<close>

lemma schedule_flow_runs_new_row:
  assumes "sched_view row = sched_view row'"
  shows "fst (schedule_flow_runs e fid mr (s\<lparr>flows := fs @ [row], uuid_count := n\<rparr>))
         = fst (schedule_flow_runs e fid mr (s\<lparr>flows := fs @ [row'], uuid_count := n\<rparr>))"
proof -
  have swap: "s\<lparr>flows := X, uuid_count := n\<rparr> = s\<lparr>uuid_count := n, flows := X\<rparr>" for X
    by (cases s) simp
  show ?thesis
    unfolding swap
    by (rule schedule_flow_runs_last_row [OF assms])
qed

lemma fst_schedule_result:
  "fst (case r of (Inl err, s3) \<Rightarrow> (Inl err, s3) | (Inr ids, s3) \<Rightarrow> (Inr fid, s3))
   = (case fst r of Inl err \<Rightarrow> Inl err | Inr ids \<Rightarrow> Inr fid)"
  by (cases r) (auto split: sum.splits)

lemma create_flow_ignores_reference_tasks:
  "fst (create_flow e (sf\<lparr>fs_reference_tasks := rs\<rparr>) pid vg act d s)
   = fst (create_flow e sf pid vg act d s)"
proof -
  let ?sf = "sf\<lparr>fs_reference_tasks := rs\<rparr>"
  have req: "required_parameters_unscheduled ?sf = required_parameters_unscheduled sf"
    by (simp add: required_parameters_unscheduled_def)
  have view: "sched_view (new_flow_row ?sf pid T v g n a d es i)
              = sched_view (new_flow_row sf pid T v g n a d es i)" for T v g n a es i
    by (simp add: sched_view_def new_flow_row_def)
  show ?thesis
  proof (cases "fs_environment sf")
    case None
    then show ?thesis by (simp add: create_flow_def)
  next
    case (Some environment)
    show ?thesis
    proof (cases "check_core_version e (map_of environment ''__version__'')")
      case (Some err)
      with \<open>fs_environment sf = Some environment\<close> show ?thesis
        by (simp add: create_flow_def)
    next
      case None
      note chk = this
      show ?thesis
      proof (cases "first_where (\<lambda>p. pr_id p = pid) (projects s)")
        case None
        with \<open>fs_environment sf = Some environment\<close> chk show ?thesis
          by (simp add: create_flow_def)
      next
        case (Some project)
        obtain vgid s0 where rv: "resolve_version_group_id e vg s = (vgid, s0)"
          by (cases "resolve_version_group_id e vg s") auto
        obtain gid s1 where eg: "ensure_flow_group e (pr_tenant_id project) vgid s0 = (gid, s1)"
          by (cases "ensure_flow_group e (pr_tenant_id project) vgid s0") auto
        show ?thesis
        proof (cases "edge_rows (pr_tenant_id project) (fs_tasks sf) (fs_edges sf)")
          case (Inl err)
          with \<open>fs_environment sf = Some environment\<close> chk Some rv eg show ?thesis
            by (simp add: create_flow_def req)
        next
          case (Inr edges)
          with \<open>fs_environment sf = Some environment\<close> chk Some rv eg show ?thesis
            by (simp add: create_flow_def req Let_def fst_schedule_result
                schedule_flow_runs_new_row [OF view])
        qed
      qed
    qed
  qed
qed

lemma reference_tasks_slug:
  assumes "u \<in> set (fs_tasks sf)"
  shows "ts_slug u \<in> reference_tasks sf \<longleftrightarrow>
           (if fs_reference_tasks sf = []
            then ts_slug u \<notin> es_upstream_task ` set (fs_edges sf)
            else ts_slug u \<in> set (fs_reference_tasks sf))"
proof (cases "fs_reference_tasks sf = []")
  case False
  then show ?thesis by (simp add: reference_tasks_def)
next
  case True
  have "ts_slug u \<in> ts_slug ` {t \<in> set (fs_tasks sf). ts_slug t \<notin> es_upstream_task ` set (fs_edges sf)}
        \<longleftrightarrow> ts_slug u \<notin> es_upstream_task ` set (fs_edges sf)"
    using assms by force
  with True show ?thesis
    by (simp add: reference_tasks_def tasks_with_downstreams_def)
qed

lemma create_flow_reference_flags:
  assumes "create_flow e sf pid vg act d s = (Inr fid, s')"
    and "t \<in> set (fl_tasks (last (flows s')))"
  shows "(tk_is_reference_task t \<longleftrightarrow>
            (if fs_reference_tasks sf = []
             then tk_slug t \<notin> es_upstream_task ` set (fs_edges sf)
             else tk_slug t \<in> set (fs_reference_tasks sf)))
         \<and> (fs_reference_tasks sf = [] \<longrightarrow>
              (tk_is_reference_task t \<longleftrightarrow> tk_is_terminal_task t))"
proof -
  from create_flow_new_row [OF assms(1)] assms(2) obtain u where u: "u \<in> set (fs_tasks sf)"
    and t: "t = task_row (fl_tenant_id (last (flows s'))) (set_task_details sf u)"
    by auto
  have "tk_is_reference_task t = (ts_slug u \<in> reference_tasks sf)"
    "tk_is_terminal_task t = (ts_slug u \<notin> es_upstream_task ` set (fs_edges sf))"
    "tk_slug t = ts_slug u"
    unfolding t
    by (simp_all add: task_row_def set_task_details_def tasks_with_downstreams_def)
  with reference_tasks_slug [OF u] show ?thesis by simp
qed

text \<open>
  Claim C5, as amended. \<open>create_flow\<close> never checks the declared reference tasks against
  the tasks of the flow: whether it succeeds, and what it returns or raises, is the same
  whatever list is declared. When it succeeds and the declared list is not empty, a task
  is stored with \<open>is_reference_task\<close> true iff its slug is declared (a declared slug
  that no task has marks nothing); when the list is empty, the tasks stored with
  \<open>is_reference_task\<close> true are exactly the terminal tasks, those whose slug is no
  edge's \<open>upstream_task\<close>.
\<close>

theorem create_flow_reference_tasks:
  "fst (create_flow e (sf\<lparr>fs_reference_tasks := rs\<rparr>) pid vg act d s)
     = fst (create_flow e sf pid vg act d s)
   \<and> (\<forall>fid s'. create_flow e sf pid vg act d s = (Inr fid, s') \<longrightarrow>
        (\<forall>t\<in>set (fl_tasks (last (flows s'))).
           (tk_is_reference_task t \<longleftrightarrow>
              (if fs_reference_tasks sf = []
               then tk_slug t \<notin> es_upstream_task ` set (fs_edges sf)
               else tk_slug t \<in> set (fs_reference_tasks sf)))
           \<and> (fs_reference_tasks sf = [] \<longrightarrow>
                (tk_is_reference_task t \<longleftrightarrow> tk_is_terminal_task t))))"
  using create_flow_ignores_reference_tasks create_flow_reference_flags by blast

theorem create_flow_reference_tasks_witness:
  "fst (create_flow env0 (flow_etl\<lparr>fs_reference_tasks := [''ghost'', ''extract'']\<rparr>)
          ''p1'' (Some ''vg1'') True None store0)
     = fst (create_flow env0 flow_etl ''p1'' (Some ''vg1'') True None store0)
   \<and> create_flow env0 flow_etl ''p1'' (Some ''vg1'') True None store0
     = (Inr ''uuid-'', snd (create_flow env0 flow_etl ''p1'' (Some ''vg1'') True None store0))
   \<and> map (\<lambda>t. (tk_slug t, tk_is_reference_task t))
       (fl_tasks (last (flows (snd
          (create_flow env0 flow_etl ''p1'' (Some ''vg1'') True None store0)))))
     = [(''extract'', False), (''transform'', False), (''load'', True)]
   \<and> map (\<lambda>t. (tk_slug t, tk_is_reference_task t))
       (fl_tasks (last (flows (snd
          (create_flow env0 (flow_etl\<lparr>fs_reference_tasks := [''ghost'', ''extract'']\<rparr>)
             ''p1'' (Some ''vg1'') True None store0)))))
     = [(''extract'', True), (''transform'', False), (''load'', False)]"
proof -
  let ?g = "flow_etl\<lparr>fs_reference_tasks := [''ghost'', ''extract'']\<rparr>"
  let ?r = "create_flow env0 flow_etl ''p1'' (Some ''vg1'') True None store0"
  let ?q = "create_flow env0 ?g ''p1'' (Some ''vg1'') True None store0"
  have r: "?r = (Inr ''uuid-'', snd ?r)"
    by (rule fst_eq_Inr_D)
       (simp add: create_defs schedule_defs example_defs store_ops Let_def)
  have q: "?q = (Inr ''uuid-'', snd ?q)"
    by (rule fst_eq_Inr_D)
       (simp add: create_defs schedule_defs example_defs store_ops Let_def)
  have tasks: "fl_tasks (last (flows (snd ?r)))
     = map (\<lambda>t. task_row ''t1'' (set_task_details flow_etl t)) (fs_tasks flow_etl)"
    using create_flow_new_row [OF r]
    by (simp add: create_defs schedule_defs example_defs store_ops Let_def)
  have tasks2: "fl_tasks (last (flows (snd ?q)))
     = map (\<lambda>t. task_row ''t1'' (set_task_details ?g t)) (fs_tasks ?g)"
    using create_flow_new_row [OF q]
    by (simp add: create_defs schedule_defs example_defs store_ops Let_def)
  show ?thesis
    using r
      create_flow_reference_tasks [where e = env0 and sf = flow_etl
        and rs = "[''ghost'', ''extract'']" and pid = "''p1''" and vg = "Some ''vg1''"
        and act = True and d = None and s = store0]
    unfolding tasks tasks2
    by (simp add: create_defs example_defs)
qed

text \<open>
  The claim as stated fails: the submission \<open>flow_ghost\<close> declares the reference task
  \<open>ghost\<close>, which none of its tasks has as slug, and \<open>create_flow\<close> succeeds on it.
\<close>

theorem create_flow_reference_tasks_counterexample:
  "''ghost'' \<in> set (fs_reference_tasks flow_ghost)
   \<and> ''ghost'' \<notin> ts_slug ` set (fs_tasks flow_ghost)
   \<and> fst (create_flow env0 flow_ghost ''p1'' None True None store0) = Inr ''uuid-ii''"
  by (simp add: flow_ghost_def create_defs schedule_defs example_defs store_ops Let_def)


subsection \<open>Required parameters and schedules\<close>

lemma first_where_None: "(first_where P rows = None) = (\<forall>r\<in>set rows. \<not> P r)"
  by (auto simp: first_where_def find_None_iff)

lemma required_parameters_unscheduled_iff:
  "required_parameters_unscheduled sf \<longleftrightarrow>
     (\<exists>sch. fs_schedule sf = Some sch
        \<and> (\<exists>c\<in>set (clocks sch). \<exists>p\<in>set (fs_parameters sf).
              ps_required p \<and> ps_name p \<notin> Some ` fst ` set (cs_parameter_defaults c)))"
proof (cases "fs_schedule sf")
  case None
  then show ?thesis by (simp add: required_parameters_unscheduled_def)
next
  case (Some sch)
  have cov: "required_names_covered ps c \<longleftrightarrow>
        (\<forall>p\<in>set ps. ps_name p \<in> Some ` fst ` set (cs_parameter_defaults c))" for ps c
  proof -
    have eq: "(case ps_name p of None \<Rightarrow> False
           | Some n \<Rightarrow> n \<in> set (map fst (cs_parameter_defaults c)))
          = (ps_name p \<in> Some ` fst ` set (cs_parameter_defaults c))" for p
      by (cases "ps_name p") auto
    show ?thesis
      unfolding required_names_covered_def list_all_iff eq by (rule refl)
  qed
  show ?thesis
    unfolding required_parameters_unscheduled_def Some
    by (auto simp: cov list_all_iff Let_def filter_empty_conv)
qed

text \<open>
  The check of lines 198-207 in \<open>create_flow\<close>. A submission with a schedule one of whose
  clocks gives no default for the name of some required parameter never gets as far as a
  write: \<open>create_flow\<close> raises and leaves the store as it was. When the submission has an
  \<open>environment\<close>, the version check of lines 182-190 passes and the project exists, what
  it raises is the \<open>ValueError\<close> of the check.
\<close>

lemma create_flow_checks_required_parameters:
  assumes "fs_schedule sf = Some sch"
    and "c \<in> set (clocks sch)"
    and "p \<in> set (fs_parameters sf)"
    and "ps_required p"
    and "ps_name p \<notin> Some ` fst ` set (cs_parameter_defaults c)"
  shows "(\<exists>err. create_flow e sf pid vg act d s = (Inl err, s))
    \<and> (\<forall>environment. fs_environment sf = Some environment
          \<and> check_core_version e (map_of environment ''__version__'') = None
          \<and> pid \<in> pr_id ` set (projects s)
          \<longrightarrow> create_flow e sf pid vg act d s
                = (Inl (ValueError ''Can not schedule a flow that has required parameters.''),
                   s))"
proof -
  have unsched: "required_parameters_unscheduled sf"
    using assms by (auto simp: required_parameters_unscheduled_iff)
  have a: "\<exists>err. create_flow e sf pid vg act d s = (Inl err, s)"
    using unsched by (simp add: create_flow_def split: option.splits)
  have c: "create_flow e sf pid vg act d s
                = (Inl (ValueError ''Can not schedule a flow that has required parameters.''),
                   s)"
    if "fs_environment sf = Some environment"
      "check_core_version e (map_of environment ''__version__'') = None"
      "pid \<in> pr_id ` set (projects s)"
    for environment
  proof -
    from that(3) have "first_where (\<lambda>p. pr_id p = pid) (projects s) \<noteq> None"
      by (auto simp: first_where_None)
    then show ?thesis
      using that(1,2) unsched by (auto simp: create_flow_def)
  qed
  from a c show ?thesis by blast
qed

text \<open>
  Claim C6. The submissions \<open>flow_uncovered\<close> and \<open>flow_uncovered_no_env\<close> have the same
  schedule, whose only clock gives no default for the required parameter \<open>x\<close>, and differ
  in \<open>environment\<close> alone, which the second leaves out. On the first \<open>create_flow\<close>
  raises the \<open>ValueError\<close> of the required-parameter check. On the second it raises
  \<open>AttributeError\<close>: line 182 calls \<open>get\<close> on the \<open>None\<close> that \<open>FlowSchema\<close> (line 96)
  gives an absent \<open>environment\<close>, before the check of lines 198-207 is reached, whereas
  the optional \<open>schedule\<close> is tested with \<open>is not None\<close> (line 202). Neither call
  writes to the store.
\<close>

theorem create_flow_required_parameters_no_environment:
  "fs_schedule flow_uncovered_no_env
     = Some \<lparr>ss_clocks = Some [\<lparr>cs_parameter_defaults = []\<rparr>], ss_extra = []\<rparr>
   \<and> filter ps_required (fs_parameters flow_uncovered_no_env)
     = [\<lparr>ps_name = Some ''x'', ps_slug = ''x'', ps_required = True, ps_default = JNull\<rparr>]
   \<and> flow_uncovered_no_env = flow_uncovered\<lparr>fs_environment := None\<rparr>
   \<and> fs_environment flow_uncovered = Some [(''type'', JStr ''Local'')]
   \<and> create_flow env0 flow_uncovered ''p1'' None True None store0
     = (Inl (ValueError ''Can not schedule a flow that has required parameters.''), store0)
   \<and> create_flow env0 flow_uncovered_no_env ''p1'' None True None store0
     = (Inl AttributeError, store0)"
  by (simp add: create_defs store_ops example_defs Let_def)


subsection \<open>Versions and flow groups\<close>

lemma max_of_Max: "max_of xs = (if xs = [] then None else Some (Max (set xs)))"
proof (induction xs)
  case Nil
  then show ?case by simp
next
  case (Cons x xs)
  then show ?case by (cases "xs = []") (simp_all add: max_def)
qed

lemma max_of_snoc:
  "max_of (xs @ [x]) = Some (case max_of xs of None \<Rightarrow> x | Some m \<Rightarrow> max m x)"
  by (induction xs) (auto split: option.splits)

lemma max_version_Max:
  "max_version s T v + 1 =
     (if set (versions_of s T v) = {} then 1 else Max (set (versions_of s T v)) + 1)"
  by (simp add: max_version_def max_of_Max)

lemma versions_of_set:
  "set (versions_of s T v)
   = {fl_version f | f. f \<in> set (flows s) \<and> fl_version_group_id f = v \<and> fl_tenant_id f = T}"
  by (auto simp: versions_of_def)

lemma max_version_snoc:
  assumes "flows s1 = flows s @ [row]" "fl_version_group_id row = v" "fl_tenant_id row = T"
    and "fl_version row = max_version s T v + 1"
  shows "max_version s1 T v = fl_version row"
proof -
  have "versions_of s1 T v = versions_of s T v @ [fl_version row]"
    using assms by (simp add: versions_of_def)
  then show ?thesis
    using assms(4)
    by (simp add: max_version_def max_of_snoc split: option.splits)
qed

lemma resolve_version_group_id_given:
  "v \<noteq> [] \<Longrightarrow> resolve_version_group_id e (Some v) s = (v, s)"
  by (simp add: resolve_version_group_id_def)

lemma ensure_flow_group_cases:
  assumes "ensure_flow_group e T v s = (gid, s1)"
  shows "(case find_flow_group s T v of
            Some g \<Rightarrow> flow_groups s1 = flow_groups s \<and> gid = fg_id g
          | None \<Rightarrow>
              flow_groups s1 = flow_groups s @
                [\<lparr>fg_id = gid, fg_tenant_id = T, fg_name = v, fg_settings = default_settings,
                  fg_schedule = None\<rparr>])"
  using assms
  by (auto simp: ensure_flow_group_def Let_def split: option.splits)

lemma ensure_flow_group_again:
  assumes "ensure_flow_group e T v s = (gid, s1)" and "flow_groups s' = flow_groups s1"
  shows "ensure_flow_group e' T v s' = (gid, s')"
proof (cases "find_flow_group s T v")
  case (Some g)
  with ensure_flow_group_cases [OF assms(1)] assms(2)
  have "find_flow_group s' T v = Some g" "gid = fg_id g"
    by (simp_all add: find_flow_group_def)
  then show ?thesis by (simp add: ensure_flow_group_def)
next
  case None
  let ?new = "\<lparr>fg_id = gid, fg_tenant_id = T, fg_name = v, fg_settings = default_settings,
                  fg_schedule = None\<rparr>"
  from None ensure_flow_group_cases [OF assms(1)] assms(2)
  have "flow_groups s' = flow_groups s @ [?new]" by simp
  with None have "find_flow_group s' T v = Some ?new"
    by (simp add: find_flow_group_def first_where_append)
  then show ?thesis by (simp add: ensure_flow_group_def)
qed

lemma create_flow_version:
  assumes ok: "create_flow e sf pid vg act d s = (Inr fid, s')"
    and pr: "first_where (\<lambda>p. pr_id p = pid) (projects s) = Some project"
  shows "flows s' = flows s @ [last (flows s')]
    \<and> fl_id (last (flows s')) = fid
    \<and> fl_version_group_id (last (flows s')) = fst (resolve_version_group_id e vg s)
    \<and> fl_tenant_id (last (flows s')) = pr_tenant_id project
    \<and> fl_version (last (flows s')) =
        (if {fl_version f | f. f \<in> set (flows s)
               \<and> fl_version_group_id f = fst (resolve_version_group_id e vg s)
               \<and> fl_tenant_id f = pr_tenant_id project} = {}
         then 1
         else Max {fl_version f | f. f \<in> set (flows s)
               \<and> fl_version_group_id f = fst (resolve_version_group_id e vg s)
               \<and> fl_tenant_id f = pr_tenant_id project} + 1)"
  using ok
proof (rule create_flow_Inr)
  fix environment project' edges vgid s0 gid s1
  assume pr': "first_where (\<lambda>p. pr_id p = pid) (projects s) = Some project'"
    and rv: "resolve_version_group_id e vg s = (vgid, s0)"
    and fl: "flows s' = flows s @ [new_flow_row sf pid (pr_tenant_id project') vgid gid
                            (max_version s (pr_tenant_id project') vgid) act d edges fid]"
  from pr pr' have [simp]: "project' = project" by simp
  let ?T = "pr_tenant_id project"
  let ?V = "{fl_version f | f. f \<in> set (flows s) \<and> fl_version_group_id f = vgid
               \<and> fl_tenant_id f = ?T}"
  from rv have vg: "fst (resolve_version_group_id e vg s) = vgid" by simp
  have others: "flows s' = flows s @ [last (flows s')] \<and> fl_id (last (flows s')) = fid
    \<and> fl_version_group_id (last (flows s')) = vgid
    \<and> fl_tenant_id (last (flows s')) = ?T"
    using fl by (simp add: new_flow_row_def)
  have v: "fl_version (last (flows s')) = max_version s ?T vgid + 1"
    using fl by (simp add: new_flow_row_def)
  have ver: "max_version s ?T vgid + 1 = (if ?V = {} then 1 else Max ?V + 1)"
    unfolding versions_of_set [symmetric] by (rule max_version_Max)
  have "fl_version (last (flows s')) = (if ?V = {} then 1 else Max ?V + 1)"
    using v ver by (rule trans)
  with others show ?thesis
    unfolding vg by blast
qed

lemma create_flow_twice:
  assumes v: "v \<noteq> []"
    and pr: "first_where (\<lambda>p. pr_id p = pid) (projects s) = Some project"
    and one: "create_flow e1 sf1 pid (Some v) act1 d1 s = (Inr f1, s1)"
    and two: "create_flow e2 sf2 pid (Some v) act2 d2 s1 = (Inr f2, s2)"
  shows "fl_version (last (flows s2)) = fl_version (last (flows s1)) + 1
    \<and> fl_flow_group_id (last (flows s2)) = fl_flow_group_id (last (flows s1))
    \<and> flow_groups s2 = flow_groups s1
    \<and> (case find_flow_group s (pr_tenant_id project) v of
          Some g \<Rightarrow> flow_groups s1 = flow_groups s
                     \<and> fl_flow_group_id (last (flows s1)) = fg_id g
        | None \<Rightarrow>
            flow_groups s1 = flow_groups s @
              [\<lparr>fg_id = fl_flow_group_id (last (flows s1)),
                fg_tenant_id = pr_tenant_id project, fg_name = v,
                fg_settings = [(''heartbeat_enabled'', JBool True),
                               (''lazarus_enabled'', JBool True),
                               (''version_locking_enabled'', JBool False)],
                fg_schedule = None\<rparr>])"
  using one
proof (rule create_flow_Inr)
  fix environment project1 edges1 vgid1 s0 gid1 s1a
  assume pr1: "first_where (\<lambda>p. pr_id p = pid) (projects s) = Some project1"
    and rv1: "resolve_version_group_id e1 (Some v) s = (vgid1, s0)"
    and eg1: "ensure_flow_group e1 (pr_tenant_id project1) vgid1 s0 = (gid1, s1a)"
    and fl1: "flows s1 = flows s @ [new_flow_row sf1 pid (pr_tenant_id project1) vgid1 gid1
                            (max_version s (pr_tenant_id project1) vgid1) act1 d1 edges1 f1]"
    and fg1: "flow_groups s1 = flow_groups s1a"
    and pj1: "projects s1 = projects s"
  from pr pr1 have p1 [simp]: "project1 = project" by simp
  from rv1 v have r1 [simp]: "vgid1 = v" "s0 = s"
    by (simp_all add: resolve_version_group_id_given)
  let ?T = "pr_tenant_id project"
  let ?row1 = "new_flow_row sf1 pid ?T v gid1 (max_version s ?T v) act1 d1 edges1 f1"
  have last1: "last (flows s1) = ?row1" using fl1 by simp
  have mv1: "max_version s1 ?T v = fl_version ?row1"
    by (rule max_version_snoc [where s = s and row = "?row1"])
       (use fl1 in \<open>simp_all add: new_flow_row_def\<close>)
  from two show ?thesis
  proof (rule create_flow_Inr)
    fix environment2 project2 edges2 vgid2 s0b gid2 s2a
    assume pr2: "first_where (\<lambda>p. pr_id p = pid) (projects s1) = Some project2"
      and rv2: "resolve_version_group_id e2 (Some v) s1 = (vgid2, s0b)"
      and eg2: "ensure_flow_group e2 (pr_tenant_id project2) vgid2 s0b = (gid2, s2a)"
      and fl2: "flows s2 = flows s1 @ [new_flow_row sf2 pid (pr_tenant_id project2) vgid2 gid2
                            (max_version s1 (pr_tenant_id project2) vgid2) act2 d2 edges2 f2]"
      and fg2: "flow_groups s2 = flow_groups s2a"
    from pr pr2 pj1 have p2 [simp]: "project2 = project" by simp
    from rv2 v have r2 [simp]: "vgid2 = v" "s0b = s1"
      by (simp_all add: resolve_version_group_id_given)
    have eg1': "ensure_flow_group e1 ?T v s = (gid1, s1a)"
      using eg1 by simp
    have "ensure_flow_group e2 ?T v s1 = (gid1, s1)"
      by (rule ensure_flow_group_again [OF eg1' fg1])
    with eg2 have g2: "gid2 = gid1" "s2a = s1" by simp_all
    have last2: "last (flows s2)
        = new_flow_row sf2 pid ?T v gid1 (max_version s1 ?T v) act2 d2 edges2 f2"
      using fl2 g2 by simp
    have grp: "(case find_flow_group s ?T v of
          Some g \<Rightarrow> flow_groups s1 = flow_groups s \<and> gid1 = fg_id g
        | None \<Rightarrow>
            flow_groups s1 = flow_groups s @
              [\<lparr>fg_id = gid1, fg_tenant_id = ?T, fg_name = v, fg_settings = default_settings,
                fg_schedule = None\<rparr>])"
      unfolding fg1 by (rule ensure_flow_group_cases [OF eg1'])
    have gl1: "fl_flow_group_id (last (flows s1)) = gid1"
      unfolding last1 by (simp add: new_flow_row_def)
    show ?thesis
      unfolding gl1 using grp fg2 g2
      unfolding last1 last2
      by (simp add: new_flow_row_def mv1 default_settings_def split: option.splits)
  qed
qed


text \<open>
  Claim C3. When \<open>create_flow\<close> succeeds for a project that exists, the flow row it
  appended has the returned id, the resolved version group id, the tenant of the project,
  and as version 1 plus the greatest version among the flows of the store with that tenant
  and version group id, or 1 when there is none. Two successive successful submissions
  with the same non-empty version group id to the same project get versions \<open>v\<close> and
  \<open>v + 1\<close> and the same flow group id; the second adds no flow group; the first adds
  one, with the default settings, exactly when the store held none for the tenant and
  the version group id, and otherwise uses the one found.
\<close>

theorem create_flow_versioning:
  "(create_flow e sf pid vg act d s = (Inr fid, s')
      \<and> first_where (\<lambda>p. pr_id p = pid) (projects s) = Some project \<longrightarrow>
      flows s' = flows s @ [last (flows s')]
      \<and> fl_id (last (flows s')) = fid
      \<and> fl_version_group_id (last (flows s')) = fst (resolve_version_group_id e vg s)
      \<and> fl_tenant_id (last (flows s')) = pr_tenant_id project
      \<and> fl_version (last (flows s')) =
          (if {fl_version f | f. f \<in> set (flows s)
                 \<and> fl_version_group_id f = fst (resolve_version_group_id e vg s)
                 \<and> fl_tenant_id f = pr_tenant_id project} = {}
           then 1
           else Max {fl_version f | f. f \<in> set (flows s)
                 \<and> fl_version_group_id f = fst (resolve_version_group_id e vg s)
                 \<and> fl_tenant_id f = pr_tenant_id project} + 1))
   \<and> (v \<noteq> []
      \<and> first_where (\<lambda>p. pr_id p = pid) (projects s) = Some project
      \<and> create_flow e1 sf1 pid (Some v) act1 d1 s = (Inr f1, s1)
      \<and> create_flow e2 sf2 pid (Some v) act2 d2 s1 = (Inr f2, s2) \<longrightarrow>
      fl_version (last (flows s2)) = fl_version (last (flows s1)) + 1
      \<and> fl_flow_group_id (last (flows s2)) = fl_flow_group_id (last (flows s1))
      \<and> flow_groups s2 = flow_groups s1
      \<and> (case find_flow_group s (pr_tenant_id project) v of
            Some g \<Rightarrow> flow_groups s1 = flow_groups s
                       \<and> fl_flow_group_id (last (flows s1)) = fg_id g
          | None \<Rightarrow>
              flow_groups s1 = flow_groups s @
                [\<lparr>fg_id = fl_flow_group_id (last (flows s1)),
                  fg_tenant_id = pr_tenant_id project, fg_name = v,
                  fg_settings = [(''heartbeat_enabled'', JBool True),
                                 (''lazarus_enabled'', JBool True),
                                 (''version_locking_enabled'', JBool False)],
                  fg_schedule = None\<rparr>]))"
  using create_flow_version [of e sf pid vg act d s fid s' project]
    create_flow_twice [of v pid s project e1 sf1 act1 d1 f1 s1 e2 sf2 act2 d2 f2 s2]
  by blast

theorem create_flow_versioning_witness:
  "create_flow env0 flow_etl ''p1'' (Some ''vg1'') True None store0
     = (Inr ''uuid-'', snd (create_flow env0 flow_etl ''p1'' (Some ''vg1'') True None store0))
   \<and> map fl_version (flows store0) = [1]
   \<and> map fl_version
       (flows (snd (create_flow env0 flow_etl ''p1'' (Some ''vg1'') True None store0)))
     = [1, 2]
   \<and> create_flow env0 flow_etl ''p1'' (Some ''vg2'') False None store0
     = (Inr ''uuid-i'', snd (create_flow env0 flow_etl ''p1'' (Some ''vg2'') False None store0))
   \<and> map (\<lambda>f. (fl_version_group_id f, fl_version f, fl_flow_group_id f))
       (flows (snd (create_flow env0 flow_no_version ''p1'' (Some ''vg2'') False None
          (snd (create_flow env0 flow_etl ''p1'' (Some ''vg2'') False None store0)))))
     = [(''vg1'', 1, ''g1''), (''vg2'', 1, ''uuid-''), (''vg2'', 2, ''uuid-'')]
   \<and> map (\<lambda>g. (fg_id g, fg_name g))
       (flow_groups (snd (create_flow env0 flow_no_version ''p1'' (Some ''vg2'') False None
          (snd (create_flow env0 flow_etl ''p1'' (Some ''vg2'') False None store0)))))
     = [(''g1'', ''vg1''), (''uuid-'', ''vg2'')]"
proof -
  let ?a = "create_flow env0 flow_etl ''p1'' (Some ''vg1'') True None store0"
  let ?r1 = "create_flow env0 flow_etl ''p1'' (Some ''vg2'') False None store0"
  let ?r2 = "create_flow env0 flow_no_version ''p1'' (Some ''vg2'') False None (snd ?r1)"
  note defs = create_defs schedule_defs example_defs store_ops Let_def
  have pr: "first_where (\<lambda>p. pr_id p = ''p1'') (projects store0)
            = Some \<lparr>pr_id = ''p1'', pr_tenant_id = ''t1''\<rparr>"
    by (simp add: store0_def first_where_def)
  have a: "?a = (Inr ''uuid-'', snd ?a)"
    by (rule fst_eq_Inr_D) (simp add: defs)
  have r1: "?r1 = (Inr ''uuid-i'', snd ?r1)"
    by (rule fst_eq_Inr_D) (simp add: defs)
  have s1: "snd ?r1 = store0
      \<lparr>flow_groups := flow_groups store0 @
         [\<lparr>fg_id = ''uuid-'', fg_tenant_id = ''t1'', fg_name = ''vg2'',
           fg_settings = default_settings, fg_schedule = None\<rparr>],
       flows := flows store0 @
         [new_flow_row flow_etl ''p1'' ''t1'' ''vg2'' ''uuid-'' 0 False None
            (case edge_rows ''t1'' (fs_tasks flow_etl) (fs_edges flow_etl) of Inr x \<Rightarrow> x
             | Inl y \<Rightarrow> [])
            ''uuid-i''],
       uuid_count := 2\<rparr>"
    by (simp add: defs)
  have r2: "?r2 = (Inr ''uuid-ii'', snd ?r2)"
    by (rule fst_eq_Inr_D) (simp add: s1 defs)
  have va: "map fl_version (flows (snd ?a)) = [1, 2]"
    using create_flow_versioning [where e = env0 and sf = flow_etl and pid = "''p1''"
        and vg = "Some ''vg1''" and act = True and d = None and s = store0
        and fid = "''uuid-''" and s' = "snd ?a"
        and project = "\<lparr>pr_id = ''p1'', pr_tenant_id = ''t1''\<rparr>"] a pr
    by (simp add: defs)
  have fl2: "map (\<lambda>f. (fl_version_group_id f, fl_version f, fl_flow_group_id f)) (flows (snd ?r2))
     = [(''vg1'', 1, ''g1''), (''vg2'', 1, ''uuid-''), (''vg2'', 2, ''uuid-'')]"
    by (simp add: s1 defs)
  have fg2: "map (\<lambda>g. (fg_id g, fg_name g)) (flow_groups (snd ?r2))
     = [(''g1'', ''vg1''), (''uuid-'', ''vg2'')]"
    by (simp add: s1 defs)
  have v0: "map fl_version (flows store0) = [1]"
    by (simp add: store0_def)
  show ?thesis
    using a r1 va fl2 fg2 v0
      create_flow_versioning [where v = "''vg2''" and pid = "''p1''" and s = store0
        and project = "\<lparr>pr_id = ''p1'', pr_tenant_id = ''t1''\<rparr>"
        and ?e1.0 = env0 and ?sf1.0 = flow_etl and ?act1.0 = False and ?d1.0 = None
        and ?f1.0 = "''uuid-i''" and ?s1.0 = "snd ?r1"
        and ?e2.0 = env0 and ?sf2.0 = flow_no_version and ?act2.0 = False and ?d2.0 = None
        and ?f2.0 = "''uuid-ii''" and ?s2.0 = "snd ?r2"]
      r2 pr
    by simp
qed

subsection \<open>The watermark of the scheduling pass\<close>

lemma update_where_append:
  "update_where P f (xs @ ys) = update_where P f xs @ update_where P f ys"
  by (simp add: update_where_def)

lemma length_update_where [simp]: "length (update_where P f xs) = length xs"
  by (simp add: update_where_def)

lemma last_scheduled_run_Max:
  "last_scheduled_run e s fid =
     (if {fr_scheduled_start_time r | r. r \<in> set (flow_runs s) \<and> fr_flow_id r = fid
            \<and> fr_auto_scheduled r} = {}
      then now_utc e
      else Max {fr_scheduled_start_time r | r. r \<in> set (flow_runs s) \<and> fr_flow_id r = fid
                  \<and> fr_auto_scheduled r})"
proof -
  let ?xs = "map fr_scheduled_start_time
               (filter (\<lambda>r. fr_flow_id r = fid \<and> fr_auto_scheduled r) (flow_runs s))"
  have set: "set ?xs = {fr_scheduled_start_time r | r. r \<in> set (flow_runs s)
               \<and> fr_flow_id r = fid \<and> fr_auto_scheduled r}"
    by auto
  have "max_of ?xs = (if ?xs = [] then None else Some (Max (set ?xs)))"
    by (rule max_of_Max)
  then have "last_scheduled_run e s fid = (if ?xs = [] then now_utc e else Max (set ?xs))"
    unfolding last_scheduled_run_def max_scheduled_start_time_def
    by (simp del: map_is_Nil_conv set_map set_filter)
  then have "last_scheduled_run e s fid = (if set ?xs = {} then now_utc e else Max (set ?xs))"
    unfolding set_empty .
  then show ?thesis unfolding set .
qed

lemma pass_row_mono: "pass_row fid w evs r \<Longrightarrow> pass_row fid w (ev # evs) r"
  by (auto simp: pass_row_def)

lemma create_flow_run_rows:
  assumes "create_flow_run e fid t ps (AutoScheduled t) s = (rid, s')"
  shows "flow_runs s' = flow_runs s
         \<or> flow_runs s' = flow_runs s @
              [\<lparr>fr_id = rid, fr_flow_id = fid, fr_scheduled_start_time = t, fr_parameters = ps,
                fr_idempotency_key = Some (AutoScheduled t), fr_state = ''Scheduled'',
                fr_auto_scheduled = False\<rparr>]"
  using assms by (auto simp: create_flow_run_def Let_def split: option.splits)

lemma schedule_events_rows:
  assumes "schedule_events e fid w evs ids s = (ids', s')"
  shows "\<exists>new. flow_runs s' = flow_runs s @ new \<and> (\<forall>r\<in>set new. pass_row fid w evs r)"
  using assms
proof (induction evs arbitrary: ids s)
  case Nil
  then show ?case by simp
next
  case (Cons ev evs)
  show ?case
  proof (cases "ev_start_time ev \<le> w")
    case True
    with Cons.prems have "schedule_events e fid w evs ids s = (ids', s')" by simp
    from Cons.IH [OF this] show ?thesis by (auto intro: pass_row_mono)
  next
    case False
    obtain rid s1 where c: "create_flow_run e fid (ev_start_time ev) (ev_parameter_defaults ev)
        (AutoScheduled (ev_start_time ev)) s = (rid, s1)"
      by (cases "create_flow_run e fid (ev_start_time ev) (ev_parameter_defaults ev)
        (AutoScheduled (ev_start_time ev)) s") auto
    with Cons.prems False have "schedule_events e fid w evs (ids @ [rid]) s1 = (ids', s')"
      by simp
    from Cons.IH [OF this] obtain new where
      new: "flow_runs s' = flow_runs s1 @ new" "\<forall>r\<in>set new. pass_row fid w evs r"
      by blast
    let ?row = "\<lparr>fr_id = rid, fr_flow_id = fid, fr_scheduled_start_time = ev_start_time ev,
                fr_parameters = ev_parameter_defaults ev,
                fr_idempotency_key = Some (AutoScheduled (ev_start_time ev)),
                fr_state = ''Scheduled'', fr_auto_scheduled = False\<rparr>"
    have row: "pass_row fid w (ev # evs) ?row"
      using False by (simp add: pass_row_def)
    from create_flow_run_rows [OF c] show ?thesis
    proof
      assume "flow_runs s1 = flow_runs s"
      with new show ?thesis by (auto intro: pass_row_mono)
    next
      assume "flow_runs s1 = flow_runs s @ [?row]"
      with new have "flow_runs s' = flow_runs s @ (?row # new)" by simp
      moreover have "\<forall>r\<in>set (?row # new). pass_row fid w (ev # evs) r"
        using new(2) row by (auto intro: pass_row_mono)
      ultimately show ?thesis by blast
    qed
  qed
qed

lemma schedule_events_skip:
  "schedule_events e fid w evs ids s
   = schedule_events e fid w (filter (\<lambda>ev. w < ev_start_time ev) evs) ids s"
  by (induction evs arbitrary: ids s) (auto split: prod.splits)

lemma schedule_flow_runs_rows:
  assumes "schedule_flow_runs e (Some fid) mr s = (r, s')"
  shows "length (flow_runs s) \<le> length (flow_runs s')
    \<and> map (\<lambda>x. (fr_id x, fr_flow_id x, fr_scheduled_start_time x))
          (take (length (flow_runs s)) (flow_runs s'))
       = map (\<lambda>x. (fr_id x, fr_flow_id x, fr_scheduled_start_time x)) (flow_runs s)
    \<and> (\<forall>x\<in>set (drop (length (flow_runs s)) (flow_runs s')).
          fr_flow_id x = fid
          \<and> last_scheduled_run e s fid < fr_scheduled_start_time x
          \<and> fr_idempotency_key x = Some (AutoScheduled (fr_scheduled_start_time x)))"
proof -
  have shape: "\<exists>new ids. flow_runs s' = update_where (\<lambda>x. fr_id x \<in> set ids)
                   (\<lambda>x. x\<lparr>fr_auto_scheduled := True\<rparr>) (flow_runs s @ new)
               \<and> (\<forall>x\<in>set new. pass_row fid (last_scheduled_run e s fid) [] x
                     \<or> (\<exists>evs. pass_row fid (last_scheduled_run e s fid) evs x))"
  proof (cases "\<exists>flow g nx. first_where (schedulable s fid) (flows s) = Some flow
        \<and> group_of s flow = Some g \<and> schedule_load e (effective_schedule g flow) = Some nx")
    case False
    then have "s' = s"
      using assms by (auto simp: schedule_flow_runs_def split: option.splits)
    then have "flow_runs s' = update_where (\<lambda>x. fr_id x \<in> set [])
                   (\<lambda>x. x\<lparr>fr_auto_scheduled := True\<rparr>) (flow_runs s @ [])"
      by (simp add: update_where_def)
    then show ?thesis by (metis empty_iff list.set(1))
  next
    case True
    then obtain flow g nx where f: "first_where (schedulable s fid) (flows s) = Some flow"
      "group_of s flow = Some g" "schedule_load e (effective_schedule g flow) = Some nx"
      by blast
    let ?evs = "nx (case mr of None \<Rightarrow> 10 | Some n \<Rightarrow> n)"
    obtain ids sa where ev: "schedule_events e fid (last_scheduled_run e s fid) ?evs [] s
        = (ids, sa)"
      by (cases "schedule_events e fid (last_scheduled_run e s fid) ?evs [] s") auto
    with assms f have s': "s' = mark_auto_scheduled ids sa"
      by (simp add: schedule_flow_runs_def)
    from schedule_events_rows [OF ev] obtain new where
      "flow_runs sa = flow_runs s @ new"
      "\<forall>x\<in>set new. pass_row fid (last_scheduled_run e s fid) ?evs x"
      by blast
    then show ?thesis
      unfolding s' mark_auto_scheduled_def by auto
  qed
  then obtain new ids where fr: "flow_runs s' = update_where (\<lambda>x. fr_id x \<in> set ids)
                   (\<lambda>x. x\<lparr>fr_auto_scheduled := True\<rparr>) (flow_runs s @ new)"
    and new: "\<forall>x\<in>set new. \<exists>evs. pass_row fid (last_scheduled_run e s fid) evs x"
    by blast
  let ?f = "\<lambda>x. if fr_id x \<in> set ids then x\<lparr>fr_auto_scheduled := True\<rparr> else x"
  have fr': "flow_runs s' = map ?f (flow_runs s) @ map ?f new"
    unfolding fr by (simp add: update_where_def)
  have a: "length (flow_runs s) \<le> length (flow_runs s')"
    unfolding fr' by simp
  have b: "map (\<lambda>x. (fr_id x, fr_flow_id x, fr_scheduled_start_time x))
          (take (length (flow_runs s)) (flow_runs s'))
       = map (\<lambda>x. (fr_id x, fr_flow_id x, fr_scheduled_start_time x)) (flow_runs s)"
    unfolding fr' by (simp add: comp_def)
  have c: "fr_flow_id x = fid
          \<and> last_scheduled_run e s fid < fr_scheduled_start_time x
          \<and> fr_idempotency_key x = Some (AutoScheduled (fr_scheduled_start_time x))"
    if "x \<in> set (drop (length (flow_runs s)) (flow_runs s'))" for x
  proof -
    from that obtain y where "y \<in> set new" "x = ?f y"
      unfolding fr' by auto
    with new show ?thesis by (auto simp: pass_row_def)
  qed
  from a b c show ?thesis by blast
qed




text \<open>
  Claim C2. The watermark \<open>last_scheduled_run\<close> of \<open>schedule_flow_runs\<close> is the greatest
  \<open>scheduled_start_time\<close> among the runs of the flow that have \<open>auto_scheduled\<close> true,
  and the time of the call when there is none. When the flow is found and its schedule
  loads, the call does what the loop does on the events that start after the watermark:
  an event that starts at the watermark or before it is skipped. Whatever the call
  returns, the runs that were there keep their place, id, flow and start time, and every
  run the call appends is a run of this flow that starts after the watermark, under the
  key of its start time; so with no auto-scheduled run before the call, every run it
  creates starts after the time of the call.
\<close>

theorem schedule_flow_runs_watermark:
  "last_scheduled_run e s fid =
     (if {fr_scheduled_start_time x | x. x \<in> set (flow_runs s) \<and> fr_flow_id x = fid
            \<and> fr_auto_scheduled x} = {}
      then now_utc e
      else Max {fr_scheduled_start_time x | x. x \<in> set (flow_runs s) \<and> fr_flow_id x = fid
                  \<and> fr_auto_scheduled x})
   \<and> (first_where (schedulable s fid) (flows s) = Some flow
        \<and> group_of s flow = Some flow_group
        \<and> schedule_load e (effective_schedule flow_group flow) = Some next_events
      \<longrightarrow> schedule_flow_runs e (Some fid) max_runs s
          = (case schedule_events e fid (last_scheduled_run e s fid)
                    (filter (\<lambda>event. last_scheduled_run e s fid < ev_start_time event)
                       (next_events (case max_runs of None \<Rightarrow> 10 | Some n \<Rightarrow> n))) [] s of
               (run_ids, s1) \<Rightarrow> (Inr run_ids, mark_auto_scheduled run_ids s1)))
   \<and> (schedule_flow_runs e (Some fid) max_runs s = (r, s')
      \<longrightarrow> length (flow_runs s) \<le> length (flow_runs s')
        \<and> map (\<lambda>x. (fr_id x, fr_flow_id x, fr_scheduled_start_time x))
              (take (length (flow_runs s)) (flow_runs s'))
            = map (\<lambda>x. (fr_id x, fr_flow_id x, fr_scheduled_start_time x)) (flow_runs s)
        \<and> (\<forall>x\<in>set (drop (length (flow_runs s)) (flow_runs s')).
              fr_flow_id x = fid
              \<and> last_scheduled_run e s fid < fr_scheduled_start_time x
              \<and> fr_idempotency_key x = Some (AutoScheduled (fr_scheduled_start_time x))
              \<and> (max_scheduled_start_time s fid = None
                   \<longrightarrow> now_utc e < fr_scheduled_start_time x)))"
  (is "?A \<and> (?H2 \<longrightarrow> ?C2) \<and> (?H3 \<longrightarrow> ?C3)")
proof -
  have a: ?A by (rule last_scheduled_run_Max)
  have b: "?H2 \<longrightarrow> ?C2"
  proof
    assume ?H2
    then show ?C2
      unfolding schedule_events_skip [symmetric, of e fid "last_scheduled_run e s fid"]
      by (simp add: schedule_flow_runs_def)
  qed
  have c: "?H3 \<longrightarrow> ?C3"
  proof
    assume h: ?H3
    have now: "max_scheduled_start_time s fid = None \<Longrightarrow> last_scheduled_run e s fid = now_utc e"
      by (simp add: last_scheduled_run_def)
    from schedule_flow_runs_rows [OF h] now show ?C3
      by metis
  qed
  from a b c show ?thesis by (intro conjI)
qed


lemma store_sched_runs_watermark: "last_scheduled_run env0 store_sched_runs ''f1'' = 150"
  by (simp add: last_scheduled_run_def max_scheduled_start_time_def store_sched_runs_def
      store_runs_def run_def)

lemma store_sched_runs_flow:
  "first_where (schedulable store_sched_runs ''f1'') (flows store_sched_runs)
     = Some (hd (flows store_sched_runs))"
  by (simp add: first_where_def schedulable_def store_sched_runs_def store_sched_def store0_def)

lemma store_sched_runs_group:
  "group_of store_sched_runs (hd (flows store_sched_runs)) = Some (hd (flow_groups store0))"
  by (simp add: first_where_def group_of_def store_sched_runs_def store_sched_def store0_def)

lemma store_sched_runs_load:
  "schedule_load env0 (effective_schedule (hd (flow_groups store0)) (hd (flows store_sched_runs)))
     = Some (\<lambda>n. map (\<lambda>t. \<lparr>ev_start_time = t, ev_parameter_defaults = []\<rparr>)
                     (take (nat n) [50, 150, 250, 350]))"
  by (simp add: effective_schedule_def schedule_truthy_def env0_def store_sched_runs_def
      store_sched_def store0_def)

lemma store_sched_runs_events:
  "(case schedule_events env0 ''f1'' 150
     [\<lparr>ev_start_time = 250, ev_parameter_defaults = []\<rparr>,
      \<lparr>ev_start_time = 350, ev_parameter_defaults = []\<rparr>] [] store_sched_runs of
      (run_ids, s1) \<Rightarrow> (Inr run_ids :: error + string list, mark_auto_scheduled run_ids s1))
   = (Inr [''uuid-'', ''uuid-i''],
      store_sched_runs\<lparr>flow_runs := flow_runs store_runs
         @ [run ''uuid-'' ''f1'' 250 ''Scheduled'' True, run ''uuid-i'' ''f1'' 350 ''Scheduled'' True],
         uuid_count := 2\<rparr>)"
  by (simp add: create_flow_run_def first_where_def env0_def store_sched_runs_def store_sched_def
      store0_def store_runs_def run_def Let_def mark_auto_scheduled_def update_where_def)


lemma store_sched_watermark: "last_scheduled_run env0 store_sched ''f1'' = now_utc env0"
  by (simp add: last_scheduled_run_def max_scheduled_start_time_def store_sched_def store0_def)

theorem schedule_flow_runs_watermark_witness:
  "last_scheduled_run env0 store_sched_runs ''f1'' = 150
   \<and> first_where (schedulable store_sched_runs ''f1'') (flows store_sched_runs)
       = Some (hd (flows store_sched_runs))
   \<and> group_of store_sched_runs (hd (flows store_sched_runs)) = Some (hd (flow_groups store0))
   \<and> schedule_load env0
         (effective_schedule (hd (flow_groups store0)) (hd (flows store_sched_runs)))
       = Some (\<lambda>n. map (\<lambda>t. \<lparr>ev_start_time = t, ev_parameter_defaults = []\<rparr>)
                       (take (nat n) [50, 150, 250, 350]))
   \<and> schedule_flow_runs env0 (Some ''f1'') None store_sched_runs
       = (Inr [''uuid-'', ''uuid-i''],
          store_sched_runs\<lparr>flow_runs := flow_runs store_runs
             @ [run ''uuid-'' ''f1'' 250 ''Scheduled'' True,
                run ''uuid-i'' ''f1'' 350 ''Scheduled'' True],
             uuid_count := 2\<rparr>)
   \<and> map fr_scheduled_start_time (flow_runs store_sched_runs) = [150, 160, 50, 150]
   \<and> map fr_scheduled_start_time
         (flow_runs (snd (schedule_flow_runs env0 (Some ''f1'') None store_sched_runs)))
       = [150, 160, 50, 150, 250, 350]"
proof -
  let ?nx = "\<lambda>n. map (\<lambda>t. \<lparr>ev_start_time = t, ev_parameter_defaults = []\<rparr>)
                       (take (nat n) [50, 150, 250, 350])"
  note T = schedule_flow_runs_watermark [where e = env0 and s = store_sched_runs
      and fid = "''f1''" and flow = "hd (flows store_sched_runs)"
      and flow_group = "hd (flow_groups store0)" and next_events = ?nx and max_runs = None
      and r = "fst (schedule_flow_runs env0 (Some ''f1'') None store_sched_runs)"
      and s' = "snd (schedule_flow_runs env0 (Some ''f1'') None store_sched_runs)"]
  have eq: "schedule_flow_runs env0 (Some ''f1'') None store_sched_runs
       = (case schedule_events env0 ''f1'' 150
            [\<lparr>ev_start_time = 250, ev_parameter_defaults = []\<rparr>,
             \<lparr>ev_start_time = 350, ev_parameter_defaults = []\<rparr>] [] store_sched_runs of
            (run_ids, s1) \<Rightarrow> (Inr run_ids, mark_auto_scheduled run_ids s1))"
    using T [THEN conjunct2, THEN conjunct1] store_sched_runs_flow store_sched_runs_group store_sched_runs_load
    by (simp add: store_sched_runs_watermark)
  have run: "schedule_flow_runs env0 (Some ''f1'') None store_sched_runs
       = (Inr [''uuid-'', ''uuid-i''],
          store_sched_runs\<lparr>flow_runs := flow_runs store_runs
             @ [run ''uuid-'' ''f1'' 250 ''Scheduled'' True,
                run ''uuid-i'' ''f1'' 350 ''Scheduled'' True],
             uuid_count := 2\<rparr>)"
    unfolding eq by (rule store_sched_runs_events)
  have old: "map fr_scheduled_start_time (flow_runs store_sched_runs) = [150, 160, 50, 150]"
    by (simp add: store_sched_runs_def store_runs_def run_def)
  have new: "map fr_scheduled_start_time
         (flow_runs (snd (schedule_flow_runs env0 (Some ''f1'') None store_sched_runs)))
       = [150, 160, 50, 150, 250, 350]"
    unfolding run by (simp add: store_runs_def run_def)
  from store_sched_runs_watermark store_sched_runs_flow store_sched_runs_group store_sched_runs_load run old new show ?thesis by (intro conjI)
qed

subsection \<open>Calling the scheduling pass twice\<close>

lemma auto_keys_consistent_iff:
  "auto_keys_consistent s fid \<longleftrightarrow>
     (\<forall>r\<in>set (flow_runs s). \<forall>t. fr_flow_id r = fid
        \<and> fr_idempotency_key r = Some (AutoScheduled t) \<longrightarrow> fr_scheduled_start_time r = t)"
  by (auto simp: auto_keys_consistent_def list_all_iff split: option.splits idempotency_key.splits)

lemma create_flow_run_consistent:
  assumes c: "create_flow_run e fid t ps (AutoScheduled t) s = (rid, s')"
    and inv: "auto_keys_consistent s fid"
  shows "auto_keys_consistent s' fid
     \<and> (\<exists>r\<in>set (flow_runs s'). fr_id r = rid \<and> fr_flow_id r = fid
            \<and> fr_scheduled_start_time r = t)"
proof (cases "first_where (\<lambda>r. fr_flow_id r = fid \<and> fr_idempotency_key r = Some (AutoScheduled t))
             (flow_runs s)")
  case None
  with c have s': "s' = s\<lparr>flow_runs := flow_runs s @
                    [\<lparr>fr_id = rid, fr_flow_id = fid, fr_scheduled_start_time = t,
                      fr_parameters = ps, fr_idempotency_key = Some (AutoScheduled t),
                      fr_state = ''Scheduled'', fr_auto_scheduled = False\<rparr>],
                uuid_count := Suc (uuid_count s)\<rparr>"
    by (auto simp: create_flow_run_def Let_def)
  show ?thesis
    using inv unfolding s' auto_keys_consistent_iff by auto
next
  case (Some r)
  with c have s': "s' = s" and rid: "rid = fr_id r"
    by (auto simp: create_flow_run_def)
  from Some have r: "r \<in> set (flow_runs s)" "fr_flow_id r = fid"
    "fr_idempotency_key r = Some (AutoScheduled t)"
    by (auto simp: first_where_def find_Some_iff)
  with inv have "fr_scheduled_start_time r = t"
    unfolding auto_keys_consistent_iff by blast
  with r rid s' inv show ?thesis by blast
qed

lemma schedule_events_marks:
  assumes "schedule_events e fid w evs ids s = (ids', s')"
    and "auto_keys_consistent s fid"
  shows "auto_keys_consistent s' fid
     \<and> set ids \<subseteq> set ids'
     \<and> (\<forall>ev\<in>set evs. w < ev_start_time ev \<longrightarrow>
           (\<exists>r\<in>set (flow_runs s'). fr_id r \<in> set ids' \<and> fr_flow_id r = fid
              \<and> fr_scheduled_start_time r = ev_start_time ev))"
  using assms
proof (induction evs arbitrary: ids s)
  case Nil
  then show ?case by simp
next
  case (Cons ev evs)
  show ?case
  proof (cases "ev_start_time ev \<le> w")
    case True
    with Cons.prems have "schedule_events e fid w evs ids s = (ids', s')" by simp
    from Cons.IH [OF this Cons.prems(2)] True show ?thesis by auto
  next
    case False
    obtain rid s1 where c: "create_flow_run e fid (ev_start_time ev) (ev_parameter_defaults ev)
        (AutoScheduled (ev_start_time ev)) s = (rid, s1)"
      by (cases "create_flow_run e fid (ev_start_time ev) (ev_parameter_defaults ev)
        (AutoScheduled (ev_start_time ev)) s") auto
    with Cons.prems False have rest: "schedule_events e fid w evs (ids @ [rid]) s1 = (ids', s')"
      by simp
    from create_flow_run_consistent [OF c Cons.prems(2)] obtain r0 where
      inv1: "auto_keys_consistent s1 fid"
      and r0: "r0 \<in> set (flow_runs s1)" "fr_id r0 = rid" "fr_flow_id r0 = fid"
        "fr_scheduled_start_time r0 = ev_start_time ev"
      by blast
    from Cons.IH [OF rest inv1] have
      ih: "auto_keys_consistent s' fid" "set (ids @ [rid]) \<subseteq> set ids'"
        "\<forall>ev\<in>set evs. w < ev_start_time ev \<longrightarrow>
           (\<exists>r\<in>set (flow_runs s'). fr_id r \<in> set ids' \<and> fr_flow_id r = fid
              \<and> fr_scheduled_start_time r = ev_start_time ev)"
      by blast+
    from schedule_events_rows [OF rest] r0(1) have "r0 \<in> set (flow_runs s')" by auto
    moreover from ih(2) have "rid \<in> set ids'" by auto
    ultimately have head: "\<exists>r\<in>set (flow_runs s'). fr_id r \<in> set ids' \<and> fr_flow_id r = fid
              \<and> fr_scheduled_start_time r = ev_start_time ev"
      using r0 by blast
    from ih(2) have sub: "set ids \<subseteq> set ids'" by auto
    from ih(1) sub head ih(3) show ?thesis by simp
  qed
qed

lemma schedule_events_all_skipped:
  "\<forall>ev\<in>set evs. ev_start_time ev \<le> w \<Longrightarrow> schedule_events e fid w evs ids s = (ids, s)"
  by (induction evs) simp_all

lemma mark_auto_scheduled_Nil: "mark_auto_scheduled [] s = s"
  by (simp add: mark_auto_scheduled_def update_where_def)

lemma mark_auto_scheduled_consistent:
  "auto_keys_consistent (mark_auto_scheduled ids s) fid = auto_keys_consistent s fid"
proof -
  let ?P = "\<lambda>r. if fr_flow_id r = fid
            then (case fr_idempotency_key r of
                    Some (AutoScheduled t) \<Rightarrow> fr_scheduled_start_time r = t
                  | Some (OtherKey k) \<Rightarrow> True
                  | None \<Rightarrow> True)
            else True"
  let ?g = "\<lambda>r. if fr_id r \<in> set ids then r\<lparr>fr_auto_scheduled := True\<rparr> else r"
  have g: "?P (?g r) = ?P r" for r
    by (cases "fr_id r \<in> set ids") (simp_all split: option.splits idempotency_key.splits)
  have "list_all ?P (map ?g (flow_runs s)) = list_all (\<lambda>r. ?P (?g r)) (flow_runs s)"
    by (simp only: list.pred_map comp_def)
  also have "\<dots> = list_all ?P (flow_runs s)"
    by (simp only: g)
  finally have e: "list_all ?P (map ?g (flow_runs s)) = list_all ?P (flow_runs s)" .
  have fr: "flow_runs (mark_auto_scheduled ids s) = map ?g (flow_runs s)"
    by (simp add: mark_auto_scheduled_def update_where_def)
  show ?thesis
    unfolding auto_keys_consistent_def fr by (rule e)
qed

lemma mark_auto_scheduled_frame:
  "flows (mark_auto_scheduled ids s) = flows s"
  "flow_groups (mark_auto_scheduled ids s) = flow_groups s"
  by (simp_all add: mark_auto_scheduled_def)

lemma max_of_ge: "x \<in> set xs \<Longrightarrow> \<exists>m. max_of xs = Some m \<and> x \<le> m"
  by (auto simp: max_of_Max)

lemma last_scheduled_run_ge:
  assumes "r \<in> set (flow_runs s)" "fr_flow_id r = fid" "fr_auto_scheduled r"
  shows "fr_scheduled_start_time r \<le> last_scheduled_run e s fid"
proof -
  let ?xs = "map fr_scheduled_start_time
               (filter (\<lambda>r. fr_flow_id r = fid \<and> fr_auto_scheduled r) (flow_runs s))"
  from assms have mem: "fr_scheduled_start_time r \<in> set ?xs" by auto
  from max_of_ge [OF mem] obtain m where m: "max_of ?xs = Some m" "fr_scheduled_start_time r \<le> m"
    by blast
  from m(1) have "last_scheduled_run e s fid = m"
    unfolding last_scheduled_run_def max_scheduled_start_time_def by simp
  with m(2) show ?thesis by simp
qed

lemma update_where_hit:
  assumes "r \<in> set xs" "P r"
  shows "f r \<in> set (update_where P f xs)"
proof -
  have "(if P r then f r else r) \<in> (\<lambda>r. if P r then f r else r) ` set xs"
    using assms(1) by (rule imageI)
  then show ?thesis using assms(2) by (simp add: update_where_def)
qed

lemma marked_row:
  assumes "r \<in> set (flow_runs s)" "fr_id r \<in> set ids"
  shows "r\<lparr>fr_auto_scheduled := True\<rparr> \<in> set (flow_runs (mark_auto_scheduled ids s))"
proof -
  have "(\<lambda>r. r\<lparr>fr_auto_scheduled := True\<rparr>) r
      \<in> set (update_where (\<lambda>r. fr_id r \<in> set ids) (\<lambda>r. r\<lparr>fr_auto_scheduled := True\<rparr>)
               (flow_runs s))"
    using assms by (rule update_where_hit)
  then show ?thesis by (simp add: mark_auto_scheduled_def)
qed

lemma pass_raises_watermark:
  assumes inv: "auto_keys_consistent s fid"
    and ev: "schedule_events e fid (last_scheduled_run e s fid) evs [] s = (ids, sa)"
  shows "auto_keys_consistent (mark_auto_scheduled ids sa) fid
    \<and> last_scheduled_run e s fid \<le> last_scheduled_run e (mark_auto_scheduled ids sa) fid
    \<and> (\<forall>ev\<in>set evs. ev_start_time ev \<le> last_scheduled_run e (mark_auto_scheduled ids sa) fid)
    \<and> (\<forall>ev\<in>set evs. last_scheduled_run e s fid < ev_start_time ev \<longrightarrow>
          (\<exists>x\<in>set (flow_runs (mark_auto_scheduled ids sa)). fr_id x \<in> set ids
              \<and> fr_flow_id x = fid \<and> fr_auto_scheduled x
              \<and> fr_scheduled_start_time x = ev_start_time ev))"
proof -
  let ?w = "last_scheduled_run e s fid"
  let ?s1 = "mark_auto_scheduled ids sa"
  from schedule_events_marks [OF ev inv] have
    inv_a: "auto_keys_consistent sa fid"
    and rows: "\<forall>ev\<in>set evs. ?w < ev_start_time ev \<longrightarrow>
           (\<exists>r\<in>set (flow_runs sa). fr_id r \<in> set ids \<and> fr_flow_id r = fid
              \<and> fr_scheduled_start_time r = ev_start_time ev)"
    by blast+
  have inv1: "auto_keys_consistent ?s1 fid"
    using inv_a by (simp add: mark_auto_scheduled_consistent)
  have marked: "\<exists>x\<in>set (flow_runs ?s1). fr_id x \<in> set ids
              \<and> fr_flow_id x = fid \<and> fr_auto_scheduled x
              \<and> fr_scheduled_start_time x = ev_start_time ev"
    if "ev \<in> set evs" "?w < ev_start_time ev" for ev
  proof -
    from rows that obtain r where r: "r \<in> set (flow_runs sa)" "fr_id r \<in> set ids"
      "fr_flow_id r = fid" "fr_scheduled_start_time r = ev_start_time ev"
      by blast
    from marked_row [OF r(1,2)] r show ?thesis
      by (intro bexI [where x = "r\<lparr>fr_auto_scheduled := True\<rparr>"]) simp_all
  qed
  have late: "ev_start_time ev \<le> last_scheduled_run e ?s1 fid"
    if "ev \<in> set evs" "?w < ev_start_time ev" for ev
  proof -
    from marked [OF that] obtain x where "x \<in> set (flow_runs ?s1)" "fr_flow_id x = fid"
      "fr_auto_scheduled x" "fr_scheduled_start_time x = ev_start_time ev"
      by blast
    with last_scheduled_run_ge [of x ?s1 fid e] show ?thesis by simp
  qed
  have mono: "?w \<le> last_scheduled_run e ?s1 fid"
  proof (cases "\<forall>ev\<in>set evs. ev_start_time ev \<le> ?w")
    case True
    from schedule_events_all_skipped [OF True, of e fid "[]" s] ev
    have "ids = []" "sa = s" by simp_all
    then show ?thesis by (simp add: mark_auto_scheduled_Nil)
  next
    case False
    then obtain ev0 where "ev0 \<in> set evs" "?w < ev_start_time ev0" by force
    with late [of ev0] show ?thesis by simp
  qed
  have all: "ev_start_time ev \<le> last_scheduled_run e ?s1 fid" if "ev \<in> set evs" for ev
  proof (cases "?w < ev_start_time ev")
    case True
    with late that show ?thesis by blast
  next
    case False
    with mono show ?thesis by simp
  qed
  from inv1 mono all marked show ?thesis by blast
qed


lemma group_of_frame: "flow_groups s1 = flow_groups s \<Longrightarrow> group_of s1 = group_of s"
  by (rule ext) (simp add: group_of_def)

lemma schedulable_frame:
  assumes "flow_groups s1 = flow_groups s"
  shows "schedulable s1 fid = schedulable s fid"
proof (rule ext)
  fix f
  show "schedulable s1 fid f = schedulable s fid f"
    unfolding schedulable_def group_of_frame [OF assms] by (rule refl)
qed

text \<open>
  Claim C1. Take a store in which every run of the flow that holds an auto-scheduled key
  starts at the instant of its key, as the data model has it, and call
  \<open>schedule_flow_runs\<close> twice with the same clock, schedule and \<open>max_runs\<close>. The second
  call creates no run: it leaves the store of the first call as it is and returns the
  empty list (or raises what the first call raised). For the first call does not lower
  the watermark, and when it gets as far as the loop, every event it skipped or
  processed starts at the new watermark or before it: each event it processed has in the
  store, under one of the returned ids, a run of the flow that starts with the event
  and is marked \<open>auto_scheduled\<close>. The hypothesis on the keys holds again after the call.
\<close>

theorem schedule_flow_runs_idempotent:
  assumes inv: "auto_keys_consistent s fid"
    and first: "schedule_flow_runs e (Some fid) max_runs s = (r, s1)"
  shows "schedule_flow_runs e (Some fid) max_runs s1
           = (case r of Inl err \<Rightarrow> Inl err | Inr run_ids \<Rightarrow> Inr [], s1)
    \<and> auto_keys_consistent s1 fid
    \<and> last_scheduled_run e s fid \<le> last_scheduled_run e s1 fid
    \<and> (\<forall>flow flow_group next_events.
          first_where (schedulable s fid) (flows s) = Some flow
          \<and> group_of s flow = Some flow_group
          \<and> schedule_load e (effective_schedule flow_group flow) = Some next_events
          \<longrightarrow> (\<exists>run_ids. r = Inr run_ids
                \<and> (\<forall>event\<in>set (next_events (case max_runs of None \<Rightarrow> 10 | Some n \<Rightarrow> n)).
                      ev_start_time event \<le> last_scheduled_run e s1 fid
                      \<and> (last_scheduled_run e s fid < ev_start_time event \<longrightarrow>
                           (\<exists>x\<in>set (flow_runs s1). fr_id x \<in> set run_ids
                               \<and> fr_flow_id x = fid \<and> fr_auto_scheduled x
                               \<and> fr_scheduled_start_time x = ev_start_time event)))))"
  (is "?second \<and> ?inv \<and> ?mono \<and> ?marks")
proof -
  from schedule_flow_runs_frame [OF first]
  have fr: "flows s1 = flows s" "flow_groups s1 = flow_groups s" by simp_all
  have sch: "schedulable s1 fid = schedulable s fid" and grp: "group_of s1 = group_of s"
    using fr(2) by (rule schedulable_frame, rule group_of_frame)
  consider
    (loop) flow flow_group next_events where
      "first_where (schedulable s fid) (flows s) = Some flow"
      "group_of s flow = Some flow_group"
      "schedule_load e (effective_schedule flow_group flow) = Some next_events"
    | (none) "\<not> (\<exists>flow flow_group next_events.
        first_where (schedulable s fid) (flows s) = Some flow
        \<and> group_of s flow = Some flow_group
        \<and> schedule_load e (effective_schedule flow_group flow) = Some next_events)"
    by blast
  then show ?thesis
  proof cases
    case none
    then have same: "s1 = s"
      using first by (auto simp: schedule_flow_runs_def split: option.splits)
    have second: ?second
      using first none unfolding same
      by (auto simp: schedule_flow_runs_def split: option.splits)
    from none have marks: ?marks by blast
    from second inv marks show ?thesis unfolding same by simp
  next
    case loop
    let ?evs = "next_events (case max_runs of None \<Rightarrow> 10 | Some n \<Rightarrow> n)"
    obtain ids sa where ev: "schedule_events e fid (last_scheduled_run e s fid) ?evs [] s
        = (ids, sa)"
      by (cases "schedule_events e fid (last_scheduled_run e s fid) ?evs [] s") auto
    with first loop have r: "r = Inr ids" and s1: "s1 = mark_auto_scheduled ids sa"
      by (simp_all add: schedule_flow_runs_def)
    from pass_raises_watermark [OF inv ev] have
      inv1: "auto_keys_consistent s1 fid"
      and mono: "last_scheduled_run e s fid \<le> last_scheduled_run e s1 fid"
      and skip: "\<forall>ev\<in>set ?evs. ev_start_time ev \<le> last_scheduled_run e s1 fid"
      and marked: "\<forall>ev\<in>set ?evs. last_scheduled_run e s fid < ev_start_time ev \<longrightarrow>
          (\<exists>x\<in>set (flow_runs s1). fr_id x \<in> set ids
              \<and> fr_flow_id x = fid \<and> fr_auto_scheduled x
              \<and> fr_scheduled_start_time x = ev_start_time ev)"
      unfolding s1 by blast+
    have again: "schedule_events e fid (last_scheduled_run e s1 fid) ?evs [] s1 = ([], s1)"
      using skip by (rule schedule_events_all_skipped)
    have second: "schedule_flow_runs e (Some fid) max_runs s1 = (Inr [], s1)"
      using loop again
      by (simp add: schedule_flow_runs_def sch grp fr mark_auto_scheduled_Nil)
    have marks: ?marks
    proof (intro allI impI)
      fix flow' flow_group' next_events'
      assume "first_where (schedulable s fid) (flows s) = Some flow'
          \<and> group_of s flow' = Some flow_group'
          \<and> schedule_load e (effective_schedule flow_group' flow') = Some next_events'"
      with loop have "next_events' = next_events" by simp
      with r skip marked show "\<exists>run_ids. r = Inr run_ids
                \<and> (\<forall>event\<in>set (next_events' (case max_runs of None \<Rightarrow> 10 | Some n \<Rightarrow> n)).
                      ev_start_time event \<le> last_scheduled_run e s1 fid
                      \<and> (last_scheduled_run e s fid < ev_start_time event \<longrightarrow>
                           (\<exists>x\<in>set (flow_runs s1). fr_id x \<in> set run_ids
                               \<and> fr_flow_id x = fid \<and> fr_auto_scheduled x
                               \<and> fr_scheduled_start_time x = ev_start_time event)))"
        by simp
    qed
    from second inv1 mono marks show ?thesis unfolding r by simp
  qed
qed



lemma store_sched_runs_consistent: "auto_keys_consistent store_sched_runs ''f1''"
  by (simp add: auto_keys_consistent_def store_sched_runs_def store_runs_def run_def)

lemma store_sched_runs_first:
  "schedule_flow_runs env0 (Some ''f1'') None store_sched_runs
   = (Inr [''uuid-'', ''uuid-i''],
      store_sched_runs\<lparr>flow_runs := flow_runs store_runs
         @ [run ''uuid-'' ''f1'' 250 ''Scheduled'' True,
            run ''uuid-i'' ''f1'' 350 ''Scheduled'' True],
         uuid_count := 2\<rparr>)"
proof -
  have "schedule_flow_runs env0 (Some ''f1'') None store_sched_runs
     = (case schedule_events env0 ''f1'' 150
            (filter (\<lambda>event. 150 < ev_start_time event)
               (map (\<lambda>t. \<lparr>ev_start_time = t, ev_parameter_defaults = []\<rparr>)
                       (take (nat 10) [50, 150, 250, 350]))) [] store_sched_runs of
            (run_ids, s1) \<Rightarrow> (Inr run_ids, mark_auto_scheduled run_ids s1))"
    unfolding schedule_events_skip [symmetric]
    by (simp only: schedule_flow_runs_def Let_def option.case store_sched_runs_flow
        store_sched_runs_group store_sched_runs_load store_sched_runs_watermark)
  also have "\<dots> = (case schedule_events env0 ''f1'' 150
     [\<lparr>ev_start_time = 250, ev_parameter_defaults = []\<rparr>,
      \<lparr>ev_start_time = 350, ev_parameter_defaults = []\<rparr>] [] store_sched_runs of
      (run_ids, s1) \<Rightarrow> (Inr run_ids, mark_auto_scheduled run_ids s1))"
    by (simp del: schedule_events.simps)
  finally show ?thesis unfolding store_sched_runs_events .
qed

lemma store_forged_first:
  "schedule_flow_runs env0 (Some ''f1'') (Some 2) store_forged
   = (Inr [''r9''],
      store_forged\<lparr>flow_runs :=
       [\<lparr>fr_id = ''r9'', fr_flow_id = ''f1'', fr_scheduled_start_time = 10, fr_parameters = [],
         fr_idempotency_key = Some (AutoScheduled 150), fr_state = ''Scheduled'',
         fr_auto_scheduled = True\<rparr>]\<rparr>)"
  by (simp add: schedule_defs store_ops env0_def store_forged_def store_sched_def store0_def
      Let_def)


theorem schedule_flow_runs_idempotent_witness:
  "auto_keys_consistent store_sched_runs ''f1''
   \<and> schedule_flow_runs env0 (Some ''f1'') None store_sched_runs
       = (Inr [''uuid-'', ''uuid-i''],
          store_sched_runs\<lparr>flow_runs := flow_runs store_runs
             @ [run ''uuid-'' ''f1'' 250 ''Scheduled'' True,
                run ''uuid-i'' ''f1'' 350 ''Scheduled'' True],
             uuid_count := 2\<rparr>)
   \<and> schedule_flow_runs env0 (Some ''f1'') None
         (store_sched_runs\<lparr>flow_runs := flow_runs store_runs
             @ [run ''uuid-'' ''f1'' 250 ''Scheduled'' True,
                run ''uuid-i'' ''f1'' 350 ''Scheduled'' True],
             uuid_count := 2\<rparr>)
       = (Inr [],
          store_sched_runs\<lparr>flow_runs := flow_runs store_runs
             @ [run ''uuid-'' ''f1'' 250 ''Scheduled'' True,
                run ''uuid-i'' ''f1'' 350 ''Scheduled'' True],
             uuid_count := 2\<rparr>)
   \<and> last_scheduled_run env0 store_sched_runs ''f1'' = 150
   \<and> last_scheduled_run env0
         (store_sched_runs\<lparr>flow_runs := flow_runs store_runs
             @ [run ''uuid-'' ''f1'' 250 ''Scheduled'' True,
                run ''uuid-i'' ''f1'' 350 ''Scheduled'' True],
             uuid_count := 2\<rparr>) ''f1'' = 350"
proof -
  have w: "last_scheduled_run env0
         (store_sched_runs\<lparr>flow_runs := flow_runs store_runs
             @ [run ''uuid-'' ''f1'' 250 ''Scheduled'' True,
                run ''uuid-i'' ''f1'' 350 ''Scheduled'' True],
             uuid_count := 2\<rparr>) ''f1'' = 350"
    by (simp add: last_scheduled_run_def max_scheduled_start_time_def store_runs_def run_def)
  from schedule_flow_runs_idempotent [OF store_sched_runs_consistent store_sched_runs_first]
  have "schedule_flow_runs env0 (Some ''f1'') None
         (store_sched_runs\<lparr>flow_runs := flow_runs store_runs
             @ [run ''uuid-'' ''f1'' 250 ''Scheduled'' True,
                run ''uuid-i'' ''f1'' 350 ''Scheduled'' True],
             uuid_count := 2\<rparr>)
       = (Inr [],
          store_sched_runs\<lparr>flow_runs := flow_runs store_runs
             @ [run ''uuid-'' ''f1'' 250 ''Scheduled'' True,
                run ''uuid-i'' ''f1'' 350 ''Scheduled'' True],
             uuid_count := 2\<rparr>)"
    by simp
  with store_sched_runs_consistent store_sched_runs_first store_sched_runs_watermark w
  show ?thesis by (intro conjI)
qed

text \<open>
  The hypothesis on the keys is needed. In \<open>store_forged\<close> the run \<open>r9\<close> holds the key of
  the instant 150 and starts at 10. The first call finds it under that key and marks
  it, which puts the watermark at 10, and the second call creates a run for the
  occurrence at 50.
\<close>

lemma schedule_flow_runs_forged_key:
  "\<not> auto_keys_consistent store_forged ''f1''
   \<and> schedule_flow_runs env0 (Some ''f1'') (Some 2) store_forged
       = (Inr [''r9''],
          store_forged\<lparr>flow_runs :=
            [\<lparr>fr_id = ''r9'', fr_flow_id = ''f1'', fr_scheduled_start_time = 10,
              fr_parameters = [], fr_idempotency_key = Some (AutoScheduled 150),
              fr_state = ''Scheduled'', fr_auto_scheduled = True\<rparr>]\<rparr>)
   \<and> schedule_flow_runs env0 (Some ''f1'') (Some 2)
         (store_forged\<lparr>flow_runs :=
            [\<lparr>fr_id = ''r9'', fr_flow_id = ''f1'', fr_scheduled_start_time = 10,
              fr_parameters = [], fr_idempotency_key = Some (AutoScheduled 150),
              fr_state = ''Scheduled'', fr_auto_scheduled = True\<rparr>]\<rparr>)
       = (Inr [''uuid-'', ''r9''],
          store_forged\<lparr>flow_runs :=
            [\<lparr>fr_id = ''r9'', fr_flow_id = ''f1'', fr_scheduled_start_time = 10,
              fr_parameters = [], fr_idempotency_key = Some (AutoScheduled 150),
              fr_state = ''Scheduled'', fr_auto_scheduled = True\<rparr>,
             run ''uuid-'' ''f1'' 50 ''Scheduled'' True],
            uuid_count := 1\<rparr>)"
proof -
  have a: "\<not> auto_keys_consistent store_forged ''f1''"
    by (simp add: auto_keys_consistent_def store_forged_def)
  have c: "schedule_flow_runs env0 (Some ''f1'') (Some 2)
         (store_forged\<lparr>flow_runs :=
            [\<lparr>fr_id = ''r9'', fr_flow_id = ''f1'', fr_scheduled_start_time = 10,
              fr_parameters = [], fr_idempotency_key = Some (AutoScheduled 150),
              fr_state = ''Scheduled'', fr_auto_scheduled = True\<rparr>]\<rparr>)
       = (Inr [''uuid-'', ''r9''],
          store_forged\<lparr>flow_runs :=
            [\<lparr>fr_id = ''r9'', fr_flow_id = ''f1'', fr_scheduled_start_time = 10,
              fr_parameters = [], fr_idempotency_key = Some (AutoScheduled 150),
              fr_state = ''Scheduled'', fr_auto_scheduled = True\<rparr>,
             run ''uuid-'' ''f1'' 50 ''Scheduled'' True],
            uuid_count := 1\<rparr>)"
    by (simp add: schedule_defs store_ops env0_def store_forged_def store_sched_def store0_def
        run_def Let_def)
  from a store_forged_first c show ?thesis by (intro conjI)
qed

end
